theory Spec2Isabelle
  imports Complex_Main "HOL-Library.Product_Lexorder" "HOL-Library.Multiset"
begin

section \<open>Numbers\<close>

text \<open>
  The cost and quantity columns of the three tables are float64 columns. A finite float is
  read as the real number it denotes and arithmetic on finite values is exact (rounding is
  left out); the non-finite values are kept, because numpy does not raise on a division by
  zero: it yields an infinity or NaN, and a missing \<open>correct_cost\<close> of the left join is NaN.
  Zero carries no sign here: a division by zero takes the sign of its numerator.
\<close>

datatype fval = Fin real | PInf | NInf | NaN

definition inf_of :: "real \<Rightarrow> fval" where
  "inf_of s = (if 0 < s then PInf else if s < 0 then NInf else NaN)"

fun fsign :: "fval \<Rightarrow> real" where
  "fsign (Fin a) = sgn a"
| "fsign PInf = 1"
| "fsign NInf = - 1"
| "fsign NaN = 0"

fun fneg :: "fval \<Rightarrow> fval" where
  "fneg (Fin a) = Fin (- a)"
| "fneg PInf = NInf"
| "fneg NInf = PInf"
| "fneg NaN = NaN"

fun fadd :: "fval \<Rightarrow> fval \<Rightarrow> fval" where
  "fadd (Fin a) (Fin b) = Fin (a + b)"
| "fadd NaN y = NaN"
| "fadd x NaN = NaN"
| "fadd PInf NInf = NaN"
| "fadd NInf PInf = NaN"
| "fadd PInf y = PInf"
| "fadd x PInf = PInf"
| "fadd NInf y = NInf"
| "fadd x NInf = NInf"

definition fsub :: "fval \<Rightarrow> fval \<Rightarrow> fval" where
  "fsub x y = fadd x (fneg y)"

fun fmul :: "fval \<Rightarrow> fval \<Rightarrow> fval" where
  "fmul (Fin a) (Fin b) = Fin (a * b)"
| "fmul NaN y = NaN"
| "fmul x NaN = NaN"
| "fmul x y = inf_of (fsign x * fsign y)"

fun fdiv :: "fval \<Rightarrow> fval \<Rightarrow> fval" where
  "fdiv (Fin a) (Fin b) = (if b = 0 then inf_of a else Fin (a / b))"
| "fdiv NaN y = NaN"
| "fdiv x NaN = NaN"
| "fdiv (Fin a) y = Fin 0"
| "fdiv x (Fin b) = inf_of (fsign x * (if b < 0 then - 1 else 1))"
| "fdiv x y = NaN"

fun fabs :: "fval \<Rightarrow> fval" where
  "fabs (Fin a) = Fin \<bar>a\<bar>"
| "fabs PInf = PInf"
| "fabs NInf = PInf"
| "fabs NaN = NaN"

fun flt :: "fval \<Rightarrow> fval \<Rightarrow> bool" where
  "flt (Fin a) (Fin b) = (a < b)"
| "flt NaN y = False"
| "flt x NaN = False"
| "flt x NInf = False"
| "flt PInf y = False"
| "flt x y = True"

definition fgt :: "fval \<Rightarrow> fval \<Rightarrow> bool" where
  "fgt x y = flt y x"

definition isna :: "fval \<Rightarrow> bool" where
  "isna x = (x = NaN)"

definition notnull :: "fval \<Rightarrow> bool" where
  "notnull x = (\<not> isna x)"

text \<open>\<open>Series.sum()\<close> skips NaN (\<open>skipna=True\<close>) and is \<open>0\<close> on an empty column.\<close>

definition pd_sum :: "fval list \<Rightarrow> fval" where
  "pd_sum xs = foldl fadd (Fin 0) (filter notnull xs)"

section \<open>Text and dates\<close>

text \<open>
  \<open>Series.str.contains(pat)\<close> with a pattern of plain letters is a substring test,
  case-sensitive unless \<open>case=False\<close> is passed; \<open>pat in s\<close> is the same test. Texts are
  byte strings, and ignoring case folds the ASCII letters.
\<close>

fun is_prefix :: "string \<Rightarrow> string \<Rightarrow> bool" where
  "is_prefix [] s = True"
| "is_prefix (p # ps) [] = False"
| "is_prefix (p # ps) (c # cs) = (p = c \<and> is_prefix ps cs)"

fun str_contains :: "string \<Rightarrow> string \<Rightarrow> bool" where
  "str_contains pat [] = (pat = [])"
| "str_contains pat (c # cs) = (is_prefix pat (c # cs) \<or> str_contains pat cs)"

definition upper_char :: "char \<Rightarrow> char" where
  "upper_char c =
     (let n = (of_char c :: nat) in if 97 \<le> n \<and> n \<le> 122 then char_of (n - 32) else c)"

definition str_contains_nocase :: "string \<Rightarrow> string \<Rightarrow> bool" where
  "str_contains_nocase pat s = str_contains (map upper_char pat) (map upper_char s)"

text \<open>A \<open>datetime\<close>: the calendar date and the time of day (in microseconds).\<close>

record datetime =
  year :: int
  month :: int
  day :: int
  time_of_day :: int

definition dt_key :: "datetime \<Rightarrow> int \<times> int \<times> int \<times> int" where
  "dt_key d = (year d, month d, day d, time_of_day d)"

definition is_leap :: "int \<Rightarrow> bool" where
  "is_leap y = (y mod 4 = 0 \<and> (y mod 100 \<noteq> 0 \<or> y mod 400 = 0))"

definition days_in_month :: "int \<Rightarrow> int \<Rightarrow> int" where
  "days_in_month y m =
     (if m = 2 then (if is_leap y then 29 else 28)
      else if m = 4 \<or> m = 6 \<or> m = 9 \<or> m = 11 then 30 else 31)"

section \<open>The movements table\<close>

text \<open>
  One row of \<open>StockMovements\<close>: the columns of the query and of the merged override
  (\<open>correct_cost\<close>, NaN where the left join found none), then the columns the constructor
  adds. \<open>movement_id\<close> is the index of the frame. A nullable column is an option.
\<close>

record movement =
  movement_id :: int
  movement_date :: datetime
  production_order_id :: "int option"
  entry_date :: "datetime option"
  document_number :: string
  movement_history :: string
  item_id :: int
  item_description :: string
  quantity :: fval
  average_cost :: fval
  total_cost :: fval
  correct_cost :: fval
  correct_movement_date :: datetime
  is_dismantling :: bool
  is_dismantling_input :: bool
  is_dismantling_output :: bool
  is_production_order :: bool
  is_production_order_input :: bool
  is_production_order_output :: bool
  is_entry :: bool
  dismantling_id :: "int option"
  original_cost :: fval
  movement_cost_is_already_correct :: bool

type_synonym frame = "movement list"

subsection \<open>Derived columns\<close>

definition set_correct_movement_date :: "frame \<Rightarrow> frame" where
  "set_correct_movement_date ms =
     map (\<lambda>row. row\<lparr>correct_movement_date :=
            (case entry_date row of Some d \<Rightarrow> d | None \<Rightarrow> movement_date row)\<rparr>) ms"

definition set_is_dismantling :: "frame \<Rightarrow> frame" where
  "set_is_dismantling ms =
     map (\<lambda>row. row\<lparr>is_dismantling :=
            str_contains_nocase ''DESMONTE'' (document_number row)\<rparr>) ms"

definition set_is_dismantling_input :: "frame \<Rightarrow> frame" where
  "set_is_dismantling_input ms =
     map (\<lambda>row. row\<lparr>is_dismantling_input :=
            (flt (total_cost row) (Fin 0) \<and> is_dismantling row)\<rparr>) ms"

definition set_is_dismantling_output :: "frame \<Rightarrow> frame" where
  "set_is_dismantling_output ms =
     map (\<lambda>row. row\<lparr>is_dismantling_output :=
            (fgt (total_cost row) (Fin 0) \<and> is_dismantling row)\<rparr>) ms"

definition set_is_production_order :: "frame \<Rightarrow> frame" where
  "set_is_production_order ms =
     map (\<lambda>row. row\<lparr>is_production_order := (production_order_id row \<noteq> None)\<rparr>) ms"

definition set_is_production_order_input :: "frame \<Rightarrow> frame" where
  "set_is_production_order_input ms =
     map (\<lambda>row. row\<lparr>is_production_order_input :=
            (str_contains ''REQUISICAO'' (movement_history row) \<and> is_production_order row)\<rparr>) ms"

definition set_is_production_order_output :: "frame \<Rightarrow> frame" where
  "set_is_production_order_output ms =
     map (\<lambda>row. row\<lparr>is_production_order_output :=
            (str_contains ''ENC'' (movement_history row) \<and>
             str_contains ''ORDEM'' (movement_history row) \<and> is_production_order row)\<rparr>) ms"

definition set_is_entry :: "frame \<Rightarrow> frame" where
  "set_is_entry ms =
     map (\<lambda>row. row\<lparr>is_entry := str_contains ''RECEBIMENTO'' (movement_history row)\<rparr>) ms"

definition set_init_columns :: "frame \<Rightarrow> frame" where
  "set_init_columns ms =
     set_is_entry (set_is_production_order_output (set_is_production_order_input
       (set_is_production_order (set_is_dismantling_output (set_is_dismantling_input
         (set_is_dismantling (set_correct_movement_date ms)))))))"

subsection \<open>Ordering and the remaining constructor steps\<close>

text \<open>
  \<open>sort_values\<close> by two keys is a stable lexicographic sort on
  (\<open>correct_movement_date\<close>, \<open>movement_id\<close>), ascending.
\<close>

definition sort_by_key :: "movement \<Rightarrow> (int \<times> int \<times> int \<times> int) \<times> int" where
  "sort_by_key row = (dt_key (correct_movement_date row), movement_id row)"

definition order_by_correct_movement_date :: "frame \<Rightarrow> frame" where
  "order_by_correct_movement_date ms = sort_key sort_by_key ms"

text \<open>The writes \<open>self.at[index, column] = value\<close>, and the row read \<open>self.loc[index]\<close>.\<close>

datatype error =
    UnknownItem int
  | DuplicateItem int
  | GroupNotFound
  | IncompleteGroup int
  | AlreadyCorrected int
  | KeyError int

definition at_total_cost :: "int \<Rightarrow> fval \<Rightarrow> frame \<Rightarrow> frame" where
  "at_total_cost i v ms = map (\<lambda>m. if movement_id m = i then m\<lparr>total_cost := v\<rparr> else m) ms"

definition at_average_cost :: "int \<Rightarrow> fval \<Rightarrow> frame \<Rightarrow> frame" where
  "at_average_cost i v ms =
     map (\<lambda>m. if movement_id m = i then m\<lparr>average_cost := v\<rparr> else m) ms"

definition at_already_correct :: "int \<Rightarrow> bool \<Rightarrow> frame \<Rightarrow> frame" where
  "at_already_correct i v ms =
     map (\<lambda>m. if movement_id m = i then m\<lparr>movement_cost_is_already_correct := v\<rparr> else m) ms"

definition at_dismantling_id :: "int \<Rightarrow> int option \<Rightarrow> frame \<Rightarrow> frame" where
  "at_dismantling_id i v ms =
     map (\<lambda>m. if movement_id m = i then m\<lparr>dismantling_id := v\<rparr> else m) ms"

definition loc :: "frame \<Rightarrow> int \<Rightarrow> error + movement" where
  "loc ms i = (case find (\<lambda>m. movement_id m = i) ms of
                 None \<Rightarrow> Inl (KeyError i) | Some m \<Rightarrow> Inr m)"

text \<open>
  \<open>set_dismantling_id\<close>: the loop runs over the rows of the selection \<open>self[self.is_dismantling]\<close>
  and writes into \<open>self\<close>; the column is new, so a row never written holds no id.
\<close>

fun dismantling_id_loop :: "int option \<Rightarrow> bool \<Rightarrow> movement list \<Rightarrow> frame \<Rightarrow> frame" where
  "dismantling_id_loop did last_was_output [] ms = ms"
| "dismantling_id_loop did last_was_output (row # rows) ms =
     (let new = (did = None \<or> (is_dismantling_input row \<and> last_was_output));
          did1 = (if new then Some (movement_id row) else did);
          lwo1 = (if new then False else last_was_output);
          lwo2 = (if is_dismantling_output row then True else lwo1)
      in dismantling_id_loop did1 lwo2 rows (at_dismantling_id (movement_id row) did1 ms))"

definition set_dismantling_id :: "frame \<Rightarrow> frame" where
  "set_dismantling_id ms =
     dismantling_id_loop None False (filter is_dismantling ms)
       (map (\<lambda>m. m\<lparr>dismantling_id := None\<rparr>) ms)"

definition set_movement_cost_is_already_correct :: "frame \<Rightarrow> frame" where
  "set_movement_cost_is_already_correct ms =
     map (\<lambda>row. row\<lparr>original_cost := total_cost row,
                     total_cost := (if notnull (correct_cost row) then correct_cost row
                                    else total_cost row),
                     movement_cost_is_already_correct :=
                       (\<not> isna (correct_cost row) \<or> is_entry row)\<rparr>) ms"

text \<open>The constructor \<open>StockMovements.__init__\<close>.\<close>

definition StockMovements :: "frame \<Rightarrow> frame" where
  "StockMovements ms =
     set_movement_cost_is_already_correct
       (set_dismantling_id (order_by_correct_movement_date (set_init_columns ms)))"

section \<open>The stock ledger\<close>

text \<open>
  \<open>Stock\<close> is a frame indexed by \<open>item_id\<close>: a list of index and row, in row order.
  The column names carry the prefix \<open>stock\<close> where they would clash with a movement's.
\<close>

record position =
  description :: string
  stock_quantity :: fval
  stock_average_cost :: fval
  stock_total_cost :: fval
  original_total_cost :: fval

type_synonym stock = "(int \<times> position) list"

definition item_id_exists :: "stock \<Rightarrow> int \<Rightarrow> bool" where
  "item_id_exists st i = (i \<in> set (map fst st))"

definition set_average_cost :: "stock \<Rightarrow> stock" where
  "set_average_cost st =
     map (\<lambda>(i, row). (i, row\<lparr>stock_average_cost :=
            (if stock_quantity row \<noteq> Fin 0
             then fdiv (stock_total_cost row) (stock_quantity row) else Fin 0)\<rparr>)) st"

definition Stock :: "stock \<Rightarrow> stock" where
  "Stock st = set_average_cost st"

definition insert_new_item_with_empty_stock :: "stock \<Rightarrow> int \<Rightarrow> string \<Rightarrow> error + stock" where
  "insert_new_item_with_empty_stock st i d =
     (if \<not> item_id_exists st i
      then Inr (st @ [(i, \<lparr>description = d, stock_quantity = Fin 0, stock_average_cost = Fin 0,
                            stock_total_cost = Fin 0, original_total_cost = Fin 0\<rparr>)])
      else Inl (DuplicateItem i))"

text \<open>
  \<open>get_stock\<close> returns the selection \<open>self.loc[[item_id]]\<close>; every caller reads its row 0
  (\<open>.iloc[0]\<close>), which is the row returned here.
\<close>

definition get_stock :: "stock \<Rightarrow> int \<Rightarrow> error + position" where
  "get_stock st i = (case map_of st i of None \<Rightarrow> Inl (UnknownItem i) | Some p \<Rightarrow> Inr p)"

definition apply_transaction :: "fval \<Rightarrow> fval \<Rightarrow> fval \<Rightarrow> position \<Rightarrow> position" where
  "apply_transaction q c oc p =
     (let p1 = p\<lparr>stock_quantity := fadd (stock_quantity p) q\<rparr>;
          p2 = p1\<lparr>stock_total_cost := fadd (stock_total_cost p1) c\<rparr>;
          p3 = p2\<lparr>original_total_cost := fadd (original_total_cost p2) oc\<rparr>
      in p3\<lparr>stock_average_cost :=
              (if stock_quantity p3 \<noteq> Fin 0
               then fdiv (stock_total_cost p3) (stock_quantity p3) else Fin 0)\<rparr>)"

definition insert_transaction :: "stock \<Rightarrow> int \<Rightarrow> fval \<Rightarrow> fval \<Rightarrow> fval \<Rightarrow> error + stock" where
  "insert_transaction st i q c oc =
     (if \<not> item_id_exists st i then Inl (UnknownItem i)
      else Inr (map (\<lambda>(k, p). if k = i then (k, apply_transaction q c oc p) else (k, p)) st))"

section \<open>The valuation timeline\<close>

record resume_entry =
  date :: datetime
  corrected_cost :: fval
  original_cost_total :: fval

type_synonym stock_resume = "resume_entry list"

definition new_empty :: stock_resume where
  "new_empty = []"

text \<open>
  \<open>datetime(year, month + 1, 1) - timedelta(days=1)\<close> is the last day of \<open>month\<close>, at
  midnight.
\<close>

definition get_last_day_of_month :: "int \<Rightarrow> int \<Rightarrow> datetime" where
  "get_last_day_of_month m y =
     (if m = 12 then \<lparr>year = y, month = m, day = 31, time_of_day = 0\<rparr>
      else \<lparr>year = y, month = m, day = days_in_month y m, time_of_day = 0\<rparr>)"

definition insert_new_entry :: "stock_resume \<Rightarrow> int \<Rightarrow> int \<Rightarrow> fval \<Rightarrow> fval \<Rightarrow> stock_resume" where
  "insert_new_entry res m y cc oc =
     res @ [\<lparr>date = get_last_day_of_month m y, corrected_cost = cc, original_cost_total = oc\<rparr>]"

section \<open>Cost correction\<close>

text \<open>
  The rows a loop iterates over (\<open>iterrows\<close> of a selection) are copies taken when the loop
  starts; the writes go to \<open>self\<close>, the frame threaded through the loop. The first loop of
  both resolvers is the same text; it returns the frame and \<open>inputs_corrected_cost\<close>.
\<close>

fun correct_inputs :: "stock \<Rightarrow> movement list \<Rightarrow> frame \<times> fval \<Rightarrow> error + frame \<times> fval" where
  "correct_inputs st [] acc = Inr acc"
| "correct_inputs st (row # rows) (ms, inputs_corrected_cost) =
     (case get_stock st (item_id row) of
        Inl e \<Rightarrow> Inl e
      | Inr p \<Rightarrow>
          (let avg_stock = stock_average_cost p;
               ms1 = at_total_cost (movement_id row) (fmul (quantity row) avg_stock) ms;
               ms2 = at_average_cost (movement_id row) avg_stock ms1;
               ms3 = at_already_correct (movement_id row) True ms2
           in correct_inputs st rows
                (ms3, fadd inputs_corrected_cost
                        (fmul (fmul (quantity row) avg_stock) (Fin (- 1))))))"

text \<open>One pass of the second loop, given the divisor of \<open>participation\<close>.\<close>

definition correct_output :: "fval \<Rightarrow> fval \<Rightarrow> movement \<Rightarrow> frame \<Rightarrow> error + frame" where
  "correct_output inputs_corrected_cost outputs_sum row ms =
     (let participation = fdiv (original_cost row) outputs_sum;
          ms1 = at_total_cost (movement_id row) (fmul inputs_corrected_cost participation) ms
      in case loc ms1 (movement_id row) of
           Inl e \<Rightarrow> Inl e
         | Inr cur \<Rightarrow>
             (let ms2 = at_average_cost (movement_id row)
                          (fdiv (total_cost cur) (quantity row)) ms1
              in Inr (at_already_correct (movement_id row) True ms2)))"

fun correct_dismantling_outputs :: "fval \<Rightarrow> fval \<Rightarrow> movement list \<Rightarrow> frame \<Rightarrow> error + frame" where
  "correct_dismantling_outputs icc outputs_original_cost [] ms = Inr ms"
| "correct_dismantling_outputs icc outputs_original_cost (row # rows) ms =
     (case correct_output icc outputs_original_cost row ms of
        Inl e \<Rightarrow> Inl e
      | Inr ms1 \<Rightarrow> correct_dismantling_outputs icc outputs_original_cost rows ms1)"

definition correct_dismantling :: "frame \<Rightarrow> int \<Rightarrow> stock \<Rightarrow> error + frame" where
  "correct_dismantling ms did st =
     (let dismantling = filter (\<lambda>m. dismantling_id m = Some did) ms
      in if dismantling = [] then Inl GroupNotFound
         else
           (let input_movements = filter is_dismantling_input dismantling;
                output_movements = filter is_dismantling_output dismantling;
                outputs_original_cost = pd_sum (map original_cost output_movements)
            in if input_movements = [] \<or> output_movements = [] then Inl (IncompleteGroup did)
               else
                 (case correct_inputs st input_movements (ms, Fin 0) of
                    Inl e \<Rightarrow> Inl e
                  | Inr (ms1, inputs_corrected_cost) \<Rightarrow>
                      correct_dismantling_outputs inputs_corrected_cost outputs_original_cost
                        output_movements ms1)))"

text \<open>
  The production-order resolver sums the outputs' original costs anew in every pass of
  its second loop, over the selection taken at the start.
\<close>

fun correct_production_outputs :: "fval \<Rightarrow> movement list \<Rightarrow> movement list \<Rightarrow> frame \<Rightarrow> error + frame" where
  "correct_production_outputs icc output_movements [] ms = Inr ms"
| "correct_production_outputs icc output_movements (row # rows) ms =
     (case correct_output icc (pd_sum (map original_cost output_movements)) row ms of
        Inl e \<Rightarrow> Inl e
      | Inr ms1 \<Rightarrow> correct_production_outputs icc output_movements rows ms1)"

definition correct_production_order :: "frame \<Rightarrow> int \<Rightarrow> stock \<Rightarrow> error + frame" where
  "correct_production_order ms pid st =
     (let production_order = filter (\<lambda>m. production_order_id m = Some pid) ms
      in if production_order = [] then Inl GroupNotFound
         else
           (let input_movements = filter is_production_order_input production_order;
                output_movements = filter is_production_order_output production_order
            in if input_movements = [] then Inl (IncompleteGroup pid)
               else
                 (case correct_inputs st input_movements (ms, Fin 0) of
                    Inl e \<Rightarrow> Inl e
                  | Inr (ms1, inputs_corrected_cost) \<Rightarrow>
                      correct_production_outputs inputs_corrected_cost output_movements
                        output_movements ms1)))"

definition correct_movement_cost_by_stock :: "frame \<Rightarrow> int \<Rightarrow> stock \<Rightarrow> error + frame" where
  "correct_movement_cost_by_stock ms mid st =
     (case loc ms mid of
        Inl e \<Rightarrow> Inl e
      | Inr movement \<Rightarrow>
          if movement_cost_is_already_correct movement then Inl (AlreadyCorrected mid)
          else
            (case get_stock st (item_id movement) of
               Inl e \<Rightarrow> Inl e
             | Inr p \<Rightarrow>
                 (let avg_stock = stock_average_cost p;
                      ms1 = at_total_cost mid (fmul avg_stock (quantity movement)) ms;
                      ms2 = at_average_cost mid avg_stock ms1
                  in Inr (at_already_correct mid True ms2))))"

text \<open>
  \<open>insert_movement_to_stock\<close>: \<open>movement\<close> is the row as \<open>self.loc[movement_id]\<close> returned it
  on entry, a copy; the write of the anomaly guard goes to \<open>self\<close>, and the transaction is
  built from \<open>movement\<close>.
\<close>

definition insert_movement_to_stock :: "frame \<Rightarrow> int \<Rightarrow> stock \<Rightarrow> error + frame \<times> stock" where
  "insert_movement_to_stock ms mid st =
     (case loc ms mid of
        Inl e \<Rightarrow> Inl e
      | Inr movement \<Rightarrow>
          (case (if \<not> item_id_exists st (item_id movement)
                 then insert_new_item_with_empty_stock st (item_id movement)
                        (item_description movement)
                 else Inr st) of
             Inl e \<Rightarrow> Inl e
           | Inr st1 \<Rightarrow>
               (let delta = fsub (original_cost movement) (total_cost movement);
                    delta_p = fabs (fdiv delta (original_cost movement));
                    ms1 = (if fgt delta_p (Fin 10) \<and>
                              str_contains ''INVENT'' (movement_history movement)
                           then at_total_cost mid (original_cost movement) ms else ms)
                in case insert_transaction st1 (item_id movement) (quantity movement)
                          (total_cost movement) (original_cost movement) of
                     Inl e \<Rightarrow> Inl e
                   | Inr st2 \<Rightarrow> Inr (ms1, st2))))"

section \<open>The driver\<close>

text \<open>
  The state of the pass: the movements frame, the ledger and the timeline. The loop of
  \<open>correct_costs_and_generate_stocks\<close> runs over \<open>self.iterrows()\<close>, whose rows are read
  from the frame once, when the loop starts: \<open>row\<close> is the row as it was then.
\<close>

type_synonym pass_state = "frame \<times> stock \<times> stock_resume"

definition month_changed :: "datetime option \<Rightarrow> movement \<Rightarrow> bool" where
  "month_changed last_date row =
     (case last_date of
        None \<Rightarrow> False
      | Some ld \<Rightarrow> month ld \<noteq> month (correct_movement_date row) \<or>
                  year ld \<noteq> year (correct_movement_date row))"

definition snapshot :: "datetime option \<Rightarrow> movement \<Rightarrow> stock \<Rightarrow> stock_resume \<Rightarrow> stock_resume" where
  "snapshot last_date row st res =
     (case last_date of
        None \<Rightarrow> res
      | Some ld \<Rightarrow>
          if month_changed last_date row
          then insert_new_entry res (month ld) (year ld)
                 (pd_sum (map (stock_total_cost \<circ> snd) st))
                 (pd_sum (map (original_total_cost \<circ> snd) st))
          else res)"

text \<open>
  Every branch of the loop body ends with the same call
  \<open>self.insert_movement_to_stock(index, start_stock)\<close>; \<open>correct_row\<close> is what a branch does
  before it, decided on the flags of \<open>row\<close>.
\<close>

definition correct_row :: "movement \<Rightarrow> frame \<Rightarrow> stock \<Rightarrow> error + frame" where
  "correct_row row ms st =
     (if movement_cost_is_already_correct row then Inr ms
      else if is_dismantling row then
        (case dismantling_id row of
           None \<Rightarrow> Inl GroupNotFound
         | Some did \<Rightarrow> correct_dismantling ms did st)
      else if is_production_order row then
        (case production_order_id row of
           None \<Rightarrow> Inl GroupNotFound
         | Some pid \<Rightarrow> correct_production_order ms pid st)
      else correct_movement_cost_by_stock ms (movement_id row) st)"

fun pass_loop :: "datetime option \<Rightarrow> movement list \<Rightarrow> pass_state \<Rightarrow> error + pass_state" where
  "pass_loop last_date [] s = Inr s"
| "pass_loop last_date (row # rows) (ms, st, res) =
     (let res1 = snapshot last_date row st res
      in case correct_row row ms st of
           Inl e \<Rightarrow> Inl e
         | Inr ms1 \<Rightarrow>
             (case insert_movement_to_stock ms1 (movement_id row) st of
                Inl e \<Rightarrow> Inl e
              | Inr (ms2, st2) \<Rightarrow>
                  pass_loop (Some (correct_movement_date row)) rows (ms2, st2, res1)))"

definition correct_costs_and_generate_stocks :: "frame \<Rightarrow> stock \<Rightarrow> stock_resume \<Rightarrow> error + pass_state" where
  "correct_costs_and_generate_stocks ms start_stock stock_resume =
     pass_loop None ms (ms, start_stock, stock_resume)"

section \<open>Concrete tables\<close>

text \<open>Rows as the query and the left join deliver them, for the examples below.\<close>

definition midnight :: "int \<Rightarrow> int \<Rightarrow> int \<Rightarrow> datetime" where
  "midnight y m d = \<lparr>year = y, month = m, day = d, time_of_day = 0\<rparr>"

definition raw_row ::
  "int \<Rightarrow> datetime \<Rightarrow> int option \<Rightarrow> string \<Rightarrow> string \<Rightarrow> int \<Rightarrow> fval \<Rightarrow> fval \<Rightarrow> fval \<Rightarrow> movement" where
  "raw_row mid d po doc hist item q tc cc =
     \<lparr>movement_id = mid, movement_date = d, production_order_id = po, entry_date = None,
      document_number = doc, movement_history = hist, item_id = item,
      item_description = ''item'', quantity = q, average_cost = NaN, total_cost = tc,
      correct_cost = cc, correct_movement_date = d, is_dismantling = False,
      is_dismantling_input = False, is_dismantling_output = False,
      is_production_order = False, is_production_order_input = False,
      is_production_order_output = False, is_entry = False, dismantling_id = None,
      original_cost = NaN, movement_cost_is_already_correct = False\<rparr>"

definition start_row :: "int \<Rightarrow> fval \<Rightarrow> fval \<Rightarrow> int \<times> position" where
  "start_row i q tc =
     (i, \<lparr>description = ''item'', stock_quantity = q, stock_average_cost = NaN,
          stock_total_cost = tc, original_total_cost = tc\<rparr>)"

section \<open>Notions used by the properties\<close>

text \<open>
  The columns that no cost correction writes: a row with the three written columns
  (\<open>total_cost\<close>, \<open>average_cost\<close>, \<open>movement_cost_is_already_correct\<close>) blanked.
\<close>

definition fixed_columns :: "movement \<Rightarrow> movement" where
  "fixed_columns m =
     m\<lparr>total_cost := Fin 0, average_cost := Fin 0, movement_cost_is_already_correct := False\<rparr>"

text \<open>Whether a call returned normally.\<close>

definition succeeds :: "'e + 'a \<Rightarrow> bool" where
  "succeeds r = (case r of Inl e \<Rightarrow> False | Inr x \<Rightarrow> True)"

text \<open>The quantity the ledger holds of an item; an item it does not list has none.\<close>

definition ledger_quantity :: "stock \<Rightarrow> int \<Rightarrow> fval" where
  "ledger_quantity st i = (case map_of st i of None \<Rightarrow> Fin 0 | Some p \<Rightarrow> stock_quantity p)"

text \<open>
  A table with an overridden sale, a dismantling of item 1 into item 2, a production order
  consuming item 1 into item 3 and a plain issue, not in processing order; and the start stock.
\<close>

definition scenario_rows :: "movement list" where
  "scenario_rows =
     [raw_row 6 (midnight 2024 3 3) None ''NF 6'' ''SAIDA'' 2 (Fin (- 1)) (Fin (- 15)) NaN,
      raw_row 3 (midnight 2024 1 10) None ''DESMONTE 1'' ''PRODUCAO'' 2 (Fin 2) (Fin 30) NaN,
      raw_row 1 (midnight 2024 1 5) None ''NF 1'' ''SAIDA'' 1 (Fin (- 4)) (Fin (- 40)) (Fin (- 44)),
      raw_row 5 (midnight 2024 3 2) (Some 9) ''OP 9'' ''ENC ORDEM'' 3 (Fin 1) (Fin 12) NaN,
      raw_row 2 (midnight 2024 1 10) None ''Desmonte 1'' ''CONSUMO'' 1 (Fin (- 2)) (Fin (- 20)) NaN,
      raw_row 4 (midnight 2024 3 2) (Some 9) ''OP 9'' ''REQUISICAO'' 1 (Fin (- 1)) (Fin (- 10)) NaN]"

definition scenario_stock :: stock where
  "scenario_stock = Stock [start_row 1 (Fin 10) (Fin 100), start_row 2 (Fin 1) (Fin 8)]"

text \<open>
  What a resolver writes, in closed form. \<open>ledger_average\<close> is the average cost the ledger
  holds of an item; \<open>write_cost\<close> is the three writes of one pass of a loop; an input is
  revalued at quantity times the ledger average, \<open>liberated_value\<close> is the
  \<open>inputs_corrected_cost\<close> the first loop accumulates, and an output receives the share
  \<open>original_cost / s\<close> of it. \<open>resolved\<close> rewrites a whole frame, the second loop last.
\<close>

definition ledger_average :: "stock \<Rightarrow> int \<Rightarrow> fval" where
  "ledger_average st i = (case map_of st i of None \<Rightarrow> NaN | Some p \<Rightarrow> stock_average_cost p)"

definition write_cost :: "fval \<Rightarrow> fval \<Rightarrow> movement \<Rightarrow> movement" where
  "write_cost t a m =
     m\<lparr>total_cost := t, average_cost := a, movement_cost_is_already_correct := True\<rparr>"

definition input_cost :: "stock \<Rightarrow> movement \<Rightarrow> fval" where
  "input_cost st r = fmul (quantity r) (ledger_average st (item_id r))"

definition resolve_input :: "stock \<Rightarrow> movement \<Rightarrow> movement" where
  "resolve_input st r = write_cost (input_cost st r) (ledger_average st (item_id r)) r"

definition liberated_value :: "stock \<Rightarrow> movement list \<Rightarrow> fval" where
  "liberated_value st ins = foldl fadd (Fin 0) (map (\<lambda>r. fmul (input_cost st r) (Fin (- 1))) ins)"

definition output_cost :: "fval \<Rightarrow> fval \<Rightarrow> movement \<Rightarrow> fval" where
  "output_cost lv s r = fmul lv (fdiv (original_cost r) s)"

definition resolve_output :: "fval \<Rightarrow> fval \<Rightarrow> movement \<Rightarrow> movement" where
  "resolve_output lv s r = write_cost (output_cost lv s r) (fdiv (output_cost lv s r) (quantity r)) r"

definition resolved :: "(movement \<Rightarrow> bool) \<Rightarrow> (movement \<Rightarrow> bool) \<Rightarrow> stock \<Rightarrow> frame \<Rightarrow> frame" where
  "resolved inp out st ms =
     (let lv = liberated_value st (filter inp ms);
          s = pd_sum (map original_cost (filter out ms))
      in map (\<lambda>m. if out m then resolve_output lv s m
                  else if inp m then resolve_input st m else m) ms)"

definition write_rows :: "(movement \<Rightarrow> movement \<Rightarrow> movement) \<Rightarrow> movement list \<Rightarrow> movement \<Rightarrow> movement" where
  "write_rows w rows m =
     (case find (\<lambda>r. movement_id r = movement_id m) rows of None \<Rightarrow> m | Some r \<Rightarrow> w r m)"

text \<open>The rows of a frame that a resolver selects as inputs and as outputs of a group.\<close>

definition dismantling_input_of :: "int \<Rightarrow> movement \<Rightarrow> bool" where
  "dismantling_input_of g m = (dismantling_id m = Some g \<and> is_dismantling_input m)"

definition dismantling_output_of :: "int \<Rightarrow> movement \<Rightarrow> bool" where
  "dismantling_output_of g m = (dismantling_id m = Some g \<and> is_dismantling_output m)"

definition production_input_of :: "int \<Rightarrow> movement \<Rightarrow> bool" where
  "production_input_of g m = (production_order_id m = Some g \<and> is_production_order_input m)"

definition production_output_of :: "int \<Rightarrow> movement \<Rightarrow> bool" where
  "production_output_of g m = (production_order_id m = Some g \<and> is_production_order_output m)"

text \<open>A production order with a requisition and no output movement.\<close>

definition order_without_output :: "movement list" where
  "order_without_output =
     [raw_row 4 (midnight 2024 3 2) (Some 9) ''OP 9'' ''REQUISICAO'' 1 (Fin (- 1)) (Fin (- 10)) NaN,
      raw_row 7 (midnight 2024 3 4) (Some 9) ''OP 9'' ''DEVOLUCAO'' 1 (Fin 1) (Fin 10) NaN]"

text \<open>
  Finite values and their reals; the row-wise form of \<open>resolved\<close>; and the selections that
  read none of the three columns a correction writes.
\<close>

definition is_fin :: "fval \<Rightarrow> bool" where
  "is_fin x = (case x of Fin a \<Rightarrow> True | PInf \<Rightarrow> False | NInf \<Rightarrow> False | NaN \<Rightarrow> False)"

definition fin_val :: "fval \<Rightarrow> real" where
  "fin_val x = (case x of Fin a \<Rightarrow> a | PInf \<Rightarrow> 0 | NInf \<Rightarrow> 0 | NaN \<Rightarrow> 0)"

definition resolve_row :: "(movement \<Rightarrow> bool) \<Rightarrow> (movement \<Rightarrow> bool) \<Rightarrow> stock \<Rightarrow> fval \<Rightarrow> fval \<Rightarrow> movement \<Rightarrow> movement" where
  "resolve_row inp out st lv s m =
     (if out m then resolve_output lv s m else if inp m then resolve_input st m else m)"

definition reads_fixed :: "(movement \<Rightarrow> bool) \<Rightarrow> bool" where
  "reads_fixed P = (\<forall>m t a. P (write_cost t a m) = P m)"

text \<open>
  A dismantling that consumes the whole stock of item 1 (10 units, held at cost 100) into
  10 units of item 2.
\<close>

definition whole_stock_dismantling :: "movement list" where
  "whole_stock_dismantling =
     [raw_row 1 (midnight 2024 1 10) None ''DESMONTE 1'' ''CONSUMO'' 1
        (Fin (- 10)) (Fin (- 90)) NaN,
      raw_row 2 (midnight 2024 1 10) None ''DESMONTE 1'' ''PRODUCAO'' 2
        (Fin 10) (Fin 90) NaN]"

text \<open>
  The classifier's two dismantling flags agree in sign with \<open>original_cost\<close>: they were
  derived from the raw \<open>total_cost\<close>, which \<open>original_cost\<close> records.
\<close>

definition classified :: "frame \<Rightarrow> bool" where
  "classified ms =
     (\<forall>m\<in>set ms. (is_dismantling_input m \<longrightarrow> flt (original_cost m) (Fin 0)) \<and>
                 (is_dismantling_output m \<longrightarrow> fgt (original_cost m) (Fin 0)))"

text \<open>A production order whose only output movement has the original cost 0.\<close>

definition order_with_free_output :: "movement list" where
  "order_with_free_output =
     [raw_row 4 (midnight 2024 3 2) (Some 9) ''OP 9'' ''REQUISICAO'' 1 (Fin (- 1)) (Fin (- 10)) NaN,
      raw_row 5 (midnight 2024 3 2) (Some 9) ''OP 9'' ''ENC ORDEM'' 3 (Fin 1) (Fin 0) NaN]"

text \<open>
  The grouping in the words of the specification: the state is the open group, its id and
  its members so far. A movement opens a new group, named by its own id, when no group is
  open or when it is a dismantling input and the open group has an output among its
  members; otherwise it joins the open group. The result lists each movement's id with
  the id of its group.
\<close>

fun group_scan :: "(int \<times> movement list) option \<Rightarrow> movement list \<Rightarrow> (int \<times> int) list" where
  "group_scan cur [] = []"
| "group_scan None (m # ms) =
     (movement_id m, movement_id m) # group_scan (Some (movement_id m, [m])) ms"
| "group_scan (Some (g, members)) (m # ms) =
     (if is_dismantling_input m \<and> list_ex is_dismantling_output members
      then (movement_id m, movement_id m) # group_scan (Some (movement_id m, [m])) ms
      else (movement_id m, g) # group_scan (Some (g, members @ [m])) ms)"

text \<open>Writing a list of group ids into a row; a row with its group id blanked.\<close>

definition assign_group :: "(int \<times> int) list \<Rightarrow> movement \<Rightarrow> movement" where
  "assign_group a m =
     (case map_of a (movement_id m) of None \<Rightarrow> m | Some g \<Rightarrow> m\<lparr>dismantling_id := Some g\<rparr>)"

definition no_group :: "movement \<Rightarrow> movement" where
  "no_group m = m\<lparr>dismantling_id := None\<rparr>"

text \<open>
  Two inputs and two outputs of one dismantling with an unrelated issue in between, then a
  second dismantling.
\<close>

definition dismantling_rows :: "movement list" where
  "dismantling_rows =
     [raw_row 1 (midnight 2024 1 2) None ''DESMONTE A'' ''CONSUMO'' 1 (Fin (- 1)) (Fin (- 10)) NaN,
      raw_row 2 (midnight 2024 1 2) None ''DESMONTE A'' ''CONSUMO'' 1 (Fin (- 1)) (Fin (- 10)) NaN,
      raw_row 3 (midnight 2024 1 2) None ''DESMONTE A'' ''PRODUCAO'' 2 (Fin 2) (Fin 8) NaN,
      raw_row 4 (midnight 2024 1 2) None ''NF 4'' ''SAIDA'' 2 (Fin (- 1)) (Fin (- 4)) NaN,
      raw_row 5 (midnight 2024 1 2) None ''DESMONTE A'' ''PRODUCAO'' 3 (Fin 1) (Fin 12) NaN,
      raw_row 6 (midnight 2024 1 3) None ''DESMONTE B'' ''CONSUMO'' 2 (Fin (- 1)) (Fin (- 4)) NaN,
      raw_row 7 (midnight 2024 1 3) None ''DESMONTE B'' ''PRODUCAO'' 4 (Fin 1) (Fin 4) NaN]"

text \<open>
  The ordering key in the words of the specification: the effective date is the entry date
  if present, else the movement date; ties are broken by the movement id.
\<close>

definition effective_date :: "movement \<Rightarrow> datetime" where
  "effective_date m = (case entry_date m of Some d \<Rightarrow> d | None \<Rightarrow> movement_date m)"

definition effective_key :: "movement \<Rightarrow> (int \<times> int \<times> int \<times> int) \<times> int" where
  "effective_key m = (dt_key (effective_date m), movement_id m)"

text \<open>
  One turn of the pass on the movement \<open>row\<close>, written out from the loop body: the row's
  cost is resolved by the branch that the flags of \<open>row\<close> select (none if the row is
  marked), the row is applied to the ledger, the row's date becomes the last date, and the
  month of the last date before is closed, on the ledger as it stood, if the row's date
  leaves it. \<open>process_in_order\<close> takes the movements of a list one after the other, front
  to back, each from the state the one before left, and stops at the first error.
\<close>

definition process_movement ::
  "movement \<Rightarrow> datetime option \<times> pass_state \<Rightarrow> error + datetime option \<times> pass_state" where
  "process_movement row s =
     (case s of (last_date, ms, st, res) \<Rightarrow>
        (case (if movement_cost_is_already_correct row then Inr ms
               else if is_dismantling row then
                 (case dismantling_id row of
                    None \<Rightarrow> Inl GroupNotFound
                  | Some did \<Rightarrow> correct_dismantling ms did st)
               else if is_production_order row then
                 (case production_order_id row of
                    None \<Rightarrow> Inl GroupNotFound
                  | Some pid \<Rightarrow> correct_production_order ms pid st)
               else correct_movement_cost_by_stock ms (movement_id row) st) of
           Inl e \<Rightarrow> Inl e
         | Inr ms1 \<Rightarrow>
             (case insert_movement_to_stock ms1 (movement_id row) st of
                Inl e \<Rightarrow> Inl e
              | Inr (ms2, st2) \<Rightarrow>
                  Inr (Some (correct_movement_date row), ms2, st2,
                       (case last_date of
                          None \<Rightarrow> res
                        | Some ld \<Rightarrow>
                            if month ld \<noteq> month (correct_movement_date row) \<or>
                               year ld \<noteq> year (correct_movement_date row)
                            then insert_new_entry res (month ld) (year ld)
                                   (pd_sum (map (stock_total_cost \<circ> snd) st))
                                   (pd_sum (map (original_total_cost \<circ> snd) st))
                            else res)))))"

definition process_in_order :: "movement list \<Rightarrow> pass_state \<Rightarrow> error + pass_state" where
  "process_in_order rows s =
     map_sum id snd
       (foldl (\<lambda>acc row. case acc of Inl e \<Rightarrow> Inl e | Inr t \<Rightarrow> process_movement row t)
          (Inr (None, s)) rows)"

text \<open>
  The months a sweep closes, in the words of the specification: going through the effective
  dates in order, starting from the last date seen (if any), each date that falls in another
  (month, year) than the date before it closes that earlier date's month; the last month
  stays open.
\<close>

fun month_closes :: "datetime option \<Rightarrow> datetime list \<Rightarrow> datetime list" where
  "month_closes last_date [] = []"
| "month_closes None (d # ds) = month_closes (Some d) ds"
| "month_closes (Some l) (d # ds) =
     (if month l \<noteq> month d \<or> year l \<noteq> year d
      then [get_last_day_of_month (month l) (year l)] else [])
     @ month_closes (Some d) ds"

text \<open>Three receipts, of 5 and 20 January and of 7 March.\<close>

definition jan_jan_mar :: "movement list" where
  "jan_jan_mar =
     [raw_row 3 (midnight 2024 3 7) None ''NF 3'' ''RECEBIMENTO'' 1 (Fin 1) (Fin 12) NaN,
      raw_row 1 (midnight 2024 1 5) None ''NF 1'' ''RECEBIMENTO'' 1 (Fin 2) (Fin 20) NaN,
      raw_row 2 (midnight 2024 1 20) None ''NF 2'' ''RECEBIMENTO'' 2 (Fin 5) (Fin 15) NaN]"

section \<open>The classifier's substring tests\<close>

lemma is_prefix_iff: "is_prefix p s \<longleftrightarrow> (\<exists>b. s = p @ b)"
  by (induction p s rule: is_prefix.induct) auto

lemma str_contains_iff: "str_contains pat s \<longleftrightarrow> (\<exists>a b. s = a @ pat @ b)"
proof (induction s)
  case Nil
  then show ?case by auto
next
  case (Cons c cs)
  show ?case
  proof
    assume "str_contains pat (c # cs)"
    then consider "is_prefix pat (c # cs)" | "str_contains pat cs" by auto
    then show "\<exists>a b. c # cs = a @ pat @ b"
    proof cases
      case 1
      then obtain b where "c # cs = pat @ b" by (auto simp: is_prefix_iff)
      then have "c # cs = [] @ pat @ b" by simp
      then show ?thesis by blast
    next
      case 2
      then obtain a b where "cs = a @ pat @ b" using Cons.IH by auto
      then have "c # cs = (c # a) @ pat @ b" by simp
      then show ?thesis by blast
    qed
  next
    assume "\<exists>a b. c # cs = a @ pat @ b"
    then obtain a b where ab: "c # cs = a @ pat @ b" by blast
    show "str_contains pat (c # cs)"
    proof (cases a)
      case Nil
      then have "is_prefix pat (c # cs)" using ab by (auto simp: is_prefix_iff)
      then show ?thesis by simp
    next
      case (Cons x a')
      then have "cs = a' @ pat @ b" using ab by simp
      then have "str_contains pat cs" using Cons.IH by blast
      then show ?thesis by simp
    qed
  qed
qed

text \<open>
  C4, as stated: every substring test of the classifier ignores case; \<open>is_entry\<close> holds iff
  the history contains "RECEBIMENTO" ignoring case. It fails on the history
  "recebimento", which contains the word ignoring case and is not classified as an entry.
\<close>

theorem classifier_ignores_case_counterexample:
  "str_contains_nocase ''RECEBIMENTO'' ''recebimento'' \<and>
   map is_entry (set_init_columns
     [raw_row 1 (midnight 2024 1 5) None ''NF 1'' ''recebimento'' 7 (Fin 5) (Fin 1) NaN])
     = [False]"
  by code_simp

text \<open>
  C4, amended: the tests on \<open>movement_history\<close> are exact (case-sensitive) substring tests:
  \<open>is_entry\<close> holds iff the history contains "RECEBIMENTO" as written,
  \<open>is_production_order_input\<close> iff it contains "REQUISICAO" as written and the movement has
  a production order id, \<open>is_production_order_output\<close> iff it contains "ENC" and "ORDEM" as
  written and the movement has a production order id; only the test of \<open>document_number\<close>
  for "DESMONTE" ignores the case of the (ASCII) letters.
\<close>

theorem classifier_substring_tests:
  "map is_entry (set_init_columns ms) =
     map (\<lambda>r. \<exists>a b. movement_history r = a @ ''RECEBIMENTO'' @ b) ms \<and>
   map is_production_order_input (set_init_columns ms) =
     map (\<lambda>r. (\<exists>a b. movement_history r = a @ ''REQUISICAO'' @ b) \<and>
               production_order_id r \<noteq> None) ms \<and>
   map is_production_order_output (set_init_columns ms) =
     map (\<lambda>r. (\<exists>a b. movement_history r = a @ ''ENC'' @ b) \<and>
               (\<exists>a b. movement_history r = a @ ''ORDEM'' @ b) \<and>
               production_order_id r \<noteq> None) ms \<and>
   map is_dismantling (set_init_columns ms) =
     map (\<lambda>r. \<exists>a b. map upper_char (document_number r) = a @ ''DESMONTE'' @ b) ms"
proof -
  have up: "map upper_char ''DESMONTE'' = ''DESMONTE''"
    by code_simp
  show ?thesis
    unfolding set_init_columns_def set_is_entry_def set_is_production_order_output_def
      set_is_production_order_input_def set_is_production_order_def
      set_is_dismantling_output_def set_is_dismantling_input_def set_is_dismantling_def
      set_correct_movement_date_def str_contains_nocase_def up
    by (simp add: comp_def str_contains_iff)
qed

section \<open>The ledger's weighted average\<close>

lemma map_of_update:
  "map_of (map (\<lambda>(k, p). if k = i then (k, f p) else (k, p)) st) j =
     (if j = i then map_option f (map_of st j) else map_of st j)"
  by (induction st) auto

lemma item_id_exists_iff: "item_id_exists st i \<longleftrightarrow> map_of st i \<noteq> None"
  by (simp add: item_id_exists_def map_of_eq_None_iff)

text \<open>
  C5: a position with quantity \<open>q1\<close>, average cost \<open>a1\<close> and total cost \<open>q1 * a1\<close>, after
  \<open>insert_transaction\<close> of quantity \<open>q2\<close> at cost \<open>c2\<close>, has the average cost
  \<open>(q1 * a1 + c2) / (q1 + q2)\<close> when \<open>q1 + q2 \<noteq> 0\<close>, and \<open>0\<close> otherwise.
\<close>

theorem insert_transaction_weighted_average:
  assumes "get_stock st i = Inr p"
    and "stock_quantity p = Fin q1" and "stock_average_cost p = Fin a1"
    and "stock_total_cost p = Fin (q1 * a1)"
  shows "\<exists>st' p'. insert_transaction st i (Fin q2) (Fin c2) oc = Inr st' \<and>
           get_stock st' i = Inr p' \<and>
           stock_average_cost p' =
             (if q1 + q2 \<noteq> 0 then Fin ((q1 * a1 + c2) / (q1 + q2)) else Fin 0)"
proof -
  from assms(1) have mp: "map_of st i = Some p"
    by (auto simp: get_stock_def split: option.splits)
  then have ex: "item_id_exists st i"
    by (simp add: item_id_exists_iff)
  let ?st' = "map (\<lambda>(k, p). if k = i then (k, apply_transaction (Fin q2) (Fin c2) oc p)
                             else (k, p)) st"
  have 1: "insert_transaction st i (Fin q2) (Fin c2) oc = Inr ?st'"
    using ex by (simp add: insert_transaction_def)
  have 2: "get_stock ?st' i = Inr (apply_transaction (Fin q2) (Fin c2) oc p)"
    using mp by (simp add: get_stock_def map_of_update)
  have 3: "stock_average_cost (apply_transaction (Fin q2) (Fin c2) oc p) =
             (if q1 + q2 \<noteq> 0 then Fin ((q1 * a1 + c2) / (q1 + q2)) else Fin 0)"
    using assms(2-4) by (simp add: apply_transaction_def Let_def)
  from 1 2 3 show ?thesis by blast
qed

theorem insert_transaction_weighted_average_witness:
  "get_stock (Stock [start_row 1 (Fin 10) (Fin 100)]) 1 =
     Inr \<lparr>description = ''item'', stock_quantity = Fin 10, stock_average_cost = Fin 10,
          stock_total_cost = Fin 100, original_total_cost = Fin 100\<rparr> \<and>
   (\<exists>st' p'. insert_transaction (Stock [start_row 1 (Fin 10) (Fin 100)]) 1
                (Fin (- 4)) (Fin (- 44)) (Fin (- 40)) = Inr st' \<and>
              get_stock st' 1 = Inr p' \<and> stock_average_cost p' = Fin (28 / 3))"
proof -
  let ?p = "\<lparr>description = ''item'', stock_quantity = Fin 10, stock_average_cost = Fin 10,
             stock_total_cost = Fin 100, original_total_cost = Fin 100\<rparr>"
  have h: "get_stock (Stock [start_row 1 (Fin 10) (Fin 100)]) 1 = Inr ?p"
    by code_simp
  have "\<exists>st' p'. insert_transaction (Stock [start_row 1 (Fin 10) (Fin 100)]) 1
                (Fin (- 4)) (Fin (- 44)) (Fin (- 40)) = Inr st' \<and>
              get_stock st' 1 = Inr p' \<and>
              stock_average_cost p' =
                (if (10::real) + - 4 \<noteq> 0 then Fin ((10 * 10 + - 44) / (10 + - 4)) else Fin 0)"
    by (rule insert_transaction_weighted_average [OF h]) simp_all
  then show ?thesis using h by simp
qed

section \<open>The anomaly guard\<close>

text \<open>
  C1 on a concrete table: movement 1 is an inventory count ("INVENTARIO") of original cost
  1 whose override sets the cost 100, a deviation of 99 > 10. The guard writes the original
  cost 1 back into the movements table, and the ledger is charged the cost 100 of the row
  read before the write.
\<close>

theorem insert_movement_to_stock_stale_cost:
  "map_sum id (\<lambda>(ms, st). (map total_cost ms, map (stock_total_cost \<circ> snd) st))
     (insert_movement_to_stock
        (StockMovements
           [raw_row 1 (midnight 2024 1 5) None ''AJ'' ''INVENTARIO'' 7 (Fin 5) (Fin 1) (Fin 100)])
        1 [])
   = Inr ([Fin 1], [Fin 100])"
  by code_simp

section \<open>The columns the corrections leave alone\<close>

lemma succeedsD: "succeeds r \<Longrightarrow> \<exists>x. r = Inr x"
  by (cases r) (simp_all add: succeeds_def)

lemma fixed_at_total_cost [simp]: "map fixed_columns (at_total_cost i v ms) = map fixed_columns ms"
  by (simp add: at_total_cost_def fixed_columns_def)

lemma fixed_at_average_cost [simp]: "map fixed_columns (at_average_cost i v ms) = map fixed_columns ms"
  by (simp add: at_average_cost_def fixed_columns_def)

lemma fixed_at_already_correct [simp]: "map fixed_columns (at_already_correct i v ms) = map fixed_columns ms"
  by (simp add: at_already_correct_def fixed_columns_def)

lemma fixed_correct_inputs:
  "correct_inputs st rows (ms, acc) = Inr (ms', acc') \<Longrightarrow> map fixed_columns ms' = map fixed_columns ms"
proof (induction rows arbitrary: ms acc)
  case Nil
  then show ?case by simp
next
  case (Cons row rows)
  then show ?case
    by (auto simp: Let_def split: sum.splits)
qed

lemma fixed_correct_output:
  "correct_output icc s row ms = Inr ms' \<Longrightarrow> map fixed_columns ms' = map fixed_columns ms"
  by (auto simp: correct_output_def Let_def split: sum.splits)

lemma fixed_correct_dismantling_outputs:
  "correct_dismantling_outputs icc s rows ms = Inr ms' \<Longrightarrow> map fixed_columns ms' = map fixed_columns ms"
proof (induction rows arbitrary: ms)
  case Nil
  then show ?case by simp
next
  case (Cons row rows)
  then show ?case
    by (auto split: sum.splits dest!: fixed_correct_output)
qed

lemma fixed_correct_production_outputs:
  "correct_production_outputs icc outs rows ms = Inr ms' \<Longrightarrow> map fixed_columns ms' = map fixed_columns ms"
proof (induction rows arbitrary: ms)
  case Nil
  then show ?case by simp
next
  case (Cons row rows)
  then show ?case
    by (auto split: sum.splits dest!: fixed_correct_output)
qed

lemma fixed_correct_dismantling:
  "correct_dismantling ms g st = Inr ms' \<Longrightarrow> map fixed_columns ms' = map fixed_columns ms"
  by (auto simp: correct_dismantling_def Let_def split: if_splits sum.splits
      dest!: fixed_correct_inputs fixed_correct_dismantling_outputs)

lemma fixed_correct_production_order:
  "correct_production_order ms g st = Inr ms' \<Longrightarrow> map fixed_columns ms' = map fixed_columns ms"
  by (auto simp: correct_production_order_def Let_def split: if_splits sum.splits
      dest!: fixed_correct_inputs fixed_correct_production_outputs)

lemma fixed_correct_movement_cost_by_stock:
  "correct_movement_cost_by_stock ms i st = Inr ms' \<Longrightarrow> map fixed_columns ms' = map fixed_columns ms"
  by (auto simp: correct_movement_cost_by_stock_def Let_def split: if_splits sum.splits)

lemma fixed_correct_row:
  "correct_row row ms st = Inr ms' \<Longrightarrow> map fixed_columns ms' = map fixed_columns ms"
  by (auto simp: correct_row_def split: if_splits option.splits
      dest: fixed_correct_dismantling fixed_correct_production_order fixed_correct_movement_cost_by_stock)

lemma fixed_insert_movement_to_stock:
  "insert_movement_to_stock ms i st = Inr (ms', st') \<Longrightarrow> map fixed_columns ms' = map fixed_columns ms"
  by (auto simp: insert_movement_to_stock_def Let_def split: if_splits sum.splits)

lemma fixed_pass_loop:
  "pass_loop ld rows (ms, st, res) = Inr (ms', st', res') \<Longrightarrow> map fixed_columns ms' = map fixed_columns ms"
proof (induction rows arbitrary: ld ms st res)
  case Nil
  then show ?case by simp
next
  case (Cons row rows)
  from Cons.prems obtain ms1 ms2 st2 where
    1: "correct_row row ms st = Inr ms1" and
    2: "insert_movement_to_stock ms1 (movement_id row) st = Inr (ms2, st2)" and
    3: "pass_loop (Some (correct_movement_date row)) rows (ms2, st2, snapshot ld row st res) = Inr (ms', st', res')"
    by (auto simp: Let_def split: sum.splits)
  from Cons.IH [OF 3] fixed_insert_movement_to_stock [OF 2] fixed_correct_row [OF 1]
  show ?case by simp
qed

lemma fixed_columns_fields [simp]:
  "movement_id (fixed_columns m) = movement_id m"
  "item_id (fixed_columns m) = item_id m"
  "quantity (fixed_columns m) = quantity m"
  "original_cost (fixed_columns m) = original_cost m"
  "correct_movement_date (fixed_columns m) = correct_movement_date m"
  "movement_date (fixed_columns m) = movement_date m"
  "entry_date (fixed_columns m) = entry_date m"
  "dismantling_id (fixed_columns m) = dismantling_id m"
  "production_order_id (fixed_columns m) = production_order_id m"
  "is_dismantling_input (fixed_columns m) = is_dismantling_input m"
  "is_dismantling_output (fixed_columns m) = is_dismantling_output m"
  "is_production_order_input (fixed_columns m) = is_production_order_input m"
  "is_production_order_output (fixed_columns m) = is_production_order_output m"
  by (simp_all add: fixed_columns_def)

lemma fixed_eq_fields:
  assumes "fixed_columns a = fixed_columns b"
  shows "movement_id a = movement_id b" and "item_id a = item_id b"
    and "quantity a = quantity b" and "original_cost a = original_cost b"
    and "correct_movement_date a = correct_movement_date b"
    and "dismantling_id a = dismantling_id b"
    and "production_order_id a = production_order_id b"
    and "is_dismantling_input a = is_dismantling_input b"
    and "is_dismantling_output a = is_dismantling_output b"
    and "is_production_order_input a = is_production_order_input b"
    and "is_production_order_output a = is_production_order_output b"
proof -
  show "movement_id a = movement_id b"
    using arg_cong [OF assms, of movement_id] by simp
  show "item_id a = item_id b"
    using arg_cong [OF assms, of item_id] by simp
  show "quantity a = quantity b"
    using arg_cong [OF assms, of quantity] by simp
  show "original_cost a = original_cost b"
    using arg_cong [OF assms, of original_cost] by simp
  show "correct_movement_date a = correct_movement_date b"
    using arg_cong [OF assms, of correct_movement_date] by simp
  show "dismantling_id a = dismantling_id b"
    using arg_cong [OF assms, of dismantling_id] by simp
  show "production_order_id a = production_order_id b"
    using arg_cong [OF assms, of production_order_id] by simp
  show "is_dismantling_input a = is_dismantling_input b"
    using arg_cong [OF assms, of is_dismantling_input] by simp
  show "is_dismantling_output a = is_dismantling_output b"
    using arg_cong [OF assms, of is_dismantling_output] by simp
  show "is_production_order_input a = is_production_order_input b"
    using arg_cong [OF assms, of is_production_order_input] by simp
  show "is_production_order_output a = is_production_order_output b"
    using arg_cong [OF assms, of is_production_order_output] by simp
qed

lemma fixed_map_movement_id:
  assumes "map fixed_columns a = map fixed_columns b"
  shows "map movement_id a = map movement_id b"
proof -
  have "map movement_id (map fixed_columns a) = map movement_id (map fixed_columns b)"
    using assms by simp
  then show ?thesis by (simp add: comp_def)
qed

lemma fadd_zero_left [simp]: "fadd (Fin 0) x = x"
  by (cases x) simp_all

lemma loc_distinct:
  assumes "distinct (map movement_id ms)" and "m \<in> set ms"
  shows "loc ms (movement_id m) = Inr m"
  using assms
proof (induction ms)
  case Nil
  then show ?case by simp
next
  case (Cons a ms)
  then show ?case
    by (auto simp: loc_def image_iff)
qed

lemma loc_fixed:
  assumes "map fixed_columns ms' = map fixed_columns ms" and "loc ms i = Inr m"
  shows "\<exists>m'. loc ms' i = Inr m' \<and> fixed_columns m' = fixed_columns m"
  using assms
proof (induction ms arbitrary: ms')
  case Nil
  then show ?case by (simp add: loc_def)
next
  case (Cons a ms)
  from Cons.prems(1) obtain a' ms1 where ms': "ms' = a' # ms1"
    and a': "fixed_columns a' = fixed_columns a" and rest: "map fixed_columns ms1 = map fixed_columns ms"
    by (cases ms') auto
  from a' have id: "movement_id a' = movement_id a"
    by (rule fixed_eq_fields)
  show ?case
  proof (cases "movement_id a = i")
    case True
    then show ?thesis using Cons.prems(2) ms' a' id by (simp add: loc_def)
  next
    case False
    then have "loc ms i = Inr m" using Cons.prems(2) by (simp add: loc_def)
    from Cons.IH [OF rest this] show ?thesis using False ms' id by (simp add: loc_def)
  qed
qed

lemma stock_quantity_apply_transaction [simp]:
  "stock_quantity (apply_transaction q c oc p) = fadd (stock_quantity p) q"
  by (simp add: apply_transaction_def Let_def)

lemma ledger_quantity_insert_transaction:
  assumes "insert_transaction st i q c oc = Inr st'"
  shows "ledger_quantity st' j = (if j = i then fadd (ledger_quantity st j) q else ledger_quantity st j)"
proof -
  from assms have ex: "item_id_exists st i"
    and st': "st' = map (\<lambda>(k, p). if k = i then (k, apply_transaction q c oc p) else (k, p)) st"
    by (auto simp: insert_transaction_def split: if_splits)
  from ex obtain p where "map_of st i = Some p" by (auto simp: item_id_exists_iff)
  then show ?thesis
    by (simp add: ledger_quantity_def st' map_of_update)
qed

lemma ledger_quantity_new_item:
  assumes "insert_new_item_with_empty_stock st i d = Inr st'"
  shows "ledger_quantity st' j = ledger_quantity st j"
proof -
  from assms have nex: "map_of st i = None"
    and st': "st' = st @ [(i, \<lparr>description = d, stock_quantity = Fin 0, stock_average_cost = Fin 0,
                            stock_total_cost = Fin 0, original_total_cost = Fin 0\<rparr>)]"
    by (auto simp: insert_new_item_with_empty_stock_def item_id_exists_iff split: if_splits)
  show ?thesis
    using nex by (auto simp: ledger_quantity_def st' map_add_def split: option.splits)
qed

lemma ledger_quantity_insert_movement:
  assumes "insert_movement_to_stock ms i st = Inr (ms', st')" and "loc ms i = Inr m"
  shows "ledger_quantity st' j =
           (if j = item_id m then fadd (ledger_quantity st j) (quantity m) else ledger_quantity st j)"
proof -
  from assms obtain st1 where
    1: "(if \<not> item_id_exists st (item_id m)
         then insert_new_item_with_empty_stock st (item_id m) (item_description m)
         else Inr st) = Inr st1"
    and 2: "insert_transaction st1 (item_id m) (quantity m) (total_cost m) (original_cost m) = Inr st'"
    by (auto simp: insert_movement_to_stock_def Let_def split: sum.splits)
  from 1 have "ledger_quantity st1 j = ledger_quantity st j"
    by (auto split: if_splits dest: ledger_quantity_new_item)
  with ledger_quantity_insert_transaction [OF 2, of j] show ?thesis by auto
qed

lemma pass_loop_quantity:
  assumes "pass_loop ld rows (ms, st, res) = Inr (ms', st', res')"
    and "distinct (map movement_id ms)"
    and "set (map fixed_columns rows) \<subseteq> set (map fixed_columns ms)"
  shows "ledger_quantity st' j =
           foldl fadd (ledger_quantity st j) (map quantity (filter (\<lambda>r. item_id r = j) rows))"
  using assms
proof (induction rows arbitrary: ld ms st res)
  case Nil
  then show ?case by simp
next
  case (Cons row rows)
  from Cons.prems(1) obtain ms1 ms2 st2 where
    1: "correct_row row ms st = Inr ms1" and
    2: "insert_movement_to_stock ms1 (movement_id row) st = Inr (ms2, st2)" and
    3: "pass_loop (Some (correct_movement_date row)) rows (ms2, st2, snapshot ld row st res) = Inr (ms', st', res')"
    by (auto simp: Let_def split: sum.splits)
  have f1: "map fixed_columns ms1 = map fixed_columns ms" by (rule fixed_correct_row [OF 1])
  have f2: "map fixed_columns ms2 = map fixed_columns ms"
    using fixed_insert_movement_to_stock [OF 2] f1 by simp
  from Cons.prems(3) obtain m where m: "m \<in> set ms" and fm: "fixed_columns m = fixed_columns row"
    by auto
  have "loc ms (movement_id m) = Inr m" by (rule loc_distinct [OF Cons.prems(2) m])
  from loc_fixed [OF f1 this] obtain m1 where
    l1: "loc ms1 (movement_id m) = Inr m1" and fm1: "fixed_columns m1 = fixed_columns m"
    by blast
  have ids: "movement_id m = movement_id row" using fm by (rule fixed_eq_fields)
  have it: "item_id m1 = item_id row" using fm1 fm fixed_eq_fields(2) by metis
  have qt: "quantity m1 = quantity row" using fm1 fm fixed_eq_fields(3) by metis
  have step: "ledger_quantity st2 j =
      (if j = item_id row then fadd (ledger_quantity st j) (quantity row) else ledger_quantity st j)"
    using ledger_quantity_insert_movement [OF 2, of m1 j] l1 ids it qt by simp
  have d2: "distinct (map movement_id ms2)"
    using Cons.prems(2) fixed_map_movement_id [OF f2] by simp
  have s2: "set (map fixed_columns rows) \<subseteq> set (map fixed_columns ms2)"
    using Cons.prems(3) f2 by simp
  from Cons.IH [OF 3 d2 s2] step show ?case by auto
qed

text \<open>
  C10: the three cost corrections (\<open>correct_dismantling\<close>, \<open>correct_production_order\<close>,
  \<open>correct_movement_cost_by_stock\<close>) change no column of any row but \<open>total_cost\<close>,
  \<open>average_cost\<close> and \<open>movement_cost_is_already_correct\<close>; so after a pass that returns, the
  ledger's quantity of every item is the seeded quantity plus the quantities of that item's
  movements, added in processing order.
\<close>

theorem corrections_write_only_cost_columns:
  "(correct_dismantling ms did st = Inr msd \<longrightarrow> map fixed_columns msd = map fixed_columns ms) \<and>
   (correct_production_order ms pid st = Inr msp \<longrightarrow> map fixed_columns msp = map fixed_columns ms) \<and>
   (correct_movement_cost_by_stock ms mid st = Inr msi \<longrightarrow>
      map fixed_columns msi = map fixed_columns ms) \<and>
   (distinct (map movement_id ms) \<longrightarrow>
    correct_costs_and_generate_stocks ms st res = Inr (ms', st', res') \<longrightarrow>
      (\<forall>j. ledger_quantity st' j =
            foldl fadd (ledger_quantity st j) (map quantity (filter (\<lambda>r. item_id r = j) ms))))"
proof -
  have "ledger_quantity st' j =
          foldl fadd (ledger_quantity st j) (map quantity (filter (\<lambda>r. item_id r = j) ms))"
    if "distinct (map movement_id ms)"
      and "correct_costs_and_generate_stocks ms st res = Inr (ms', st', res')" for j
    using that pass_loop_quantity [of None ms ms st res ms' st' res' j]
    by (simp add: correct_costs_and_generate_stocks_def)
  then show ?thesis
    using fixed_correct_dismantling [of ms did st msd]
      fixed_correct_production_order [of ms pid st msp]
      fixed_correct_movement_cost_by_stock [of ms mid st msi]
    by blast
qed

theorem corrections_write_only_cost_columns_witness:
  "\<exists>ms1 ms2 ms3 ms' st' res'.
     correct_dismantling (StockMovements scenario_rows) 2 scenario_stock = Inr ms1 \<and>
     map fixed_columns ms1 = map fixed_columns (StockMovements scenario_rows) \<and>
     correct_production_order (StockMovements scenario_rows) 9 scenario_stock = Inr ms2 \<and>
     map fixed_columns ms2 = map fixed_columns (StockMovements scenario_rows) \<and>
     correct_movement_cost_by_stock (StockMovements scenario_rows) 6 scenario_stock = Inr ms3 \<and>
     map fixed_columns ms3 = map fixed_columns (StockMovements scenario_rows) \<and>
     distinct (map movement_id (StockMovements scenario_rows)) \<and>
     correct_costs_and_generate_stocks (StockMovements scenario_rows) scenario_stock new_empty
       = Inr (ms', st', res') \<and>
     ledger_quantity st' 1 = Fin 3 \<and> ledger_quantity st' 2 = Fin 2 \<and> ledger_quantity st' 3 = Fin 1"
proof -
  let ?T = "StockMovements scenario_rows"
  have "succeeds (correct_dismantling ?T 2 scenario_stock)" by code_simp
  then obtain ms1 where 1: "correct_dismantling ?T 2 scenario_stock = Inr ms1"
    by (auto dest: succeedsD)
  have "succeeds (correct_production_order ?T 9 scenario_stock)" by code_simp
  then obtain ms2 where 2: "correct_production_order ?T 9 scenario_stock = Inr ms2"
    by (auto dest: succeedsD)
  have "succeeds (correct_movement_cost_by_stock ?T 6 scenario_stock)" by code_simp
  then obtain ms3 where 3: "correct_movement_cost_by_stock ?T 6 scenario_stock = Inr ms3"
    by (auto dest: succeedsD)
  have "succeeds (correct_costs_and_generate_stocks ?T scenario_stock new_empty)" by code_simp
  then obtain ms' st' res' where
    4: "correct_costs_and_generate_stocks ?T scenario_stock new_empty = Inr (ms', st', res')"
    by (auto dest: succeedsD)
  have d: "distinct (map movement_id ?T)" by code_simp
  have q1: "foldl fadd (ledger_quantity scenario_stock 1)
              (map quantity (filter (\<lambda>r. item_id r = 1) ?T)) = Fin 3"
    by code_simp
  have q2: "foldl fadd (ledger_quantity scenario_stock 2)
              (map quantity (filter (\<lambda>r. item_id r = 2) ?T)) = Fin 2"
    by code_simp
  have q3: "foldl fadd (ledger_quantity scenario_stock 3)
              (map quantity (filter (\<lambda>r. item_id r = 3) ?T)) = Fin 1"
    by code_simp
  from corrections_write_only_cost_columns [where ms = ?T and did = 2 and st = scenario_stock
      and msd = ms1 and pid = 9 and msp = ms2 and mid = 6 and msi = ms3 and res = new_empty
      and ms' = ms' and st' = st' and res' = res']
    1 2 3 4 d q1 q2 q3
  show ?thesis by auto
qed

section \<open>The resolvers in closed form\<close>

lemma write_cost_fields [simp]:
  "movement_id (write_cost t a m) = movement_id m"
  "total_cost (write_cost t a m) = t"
  "average_cost (write_cost t a m) = a"
  "movement_cost_is_already_correct (write_cost t a m) = True"
  "fixed_columns (write_cost t a m) = fixed_columns m"
  "write_cost t a (write_cost t' a' m) = write_cost t a m"
  by (simp_all add: write_cost_def fixed_columns_def)

lemma at_writes:
  "at_already_correct i True (at_average_cost i a (at_total_cost i t ms)) =
     map (\<lambda>m. if movement_id m = i then write_cost t a m else m) ms"
  by (simp add: at_already_correct_def at_average_cost_def at_total_cost_def write_cost_def)

lemma find_None_iff2: "find P xs = None \<longleftrightarrow> (\<forall>x\<in>set xs. \<not> P x)"
  by (induction xs) auto

lemma write_rows_step:
  assumes "movement_id row \<notin> movement_id ` set rows"
    and "\<And>m. movement_id (w row m) = movement_id m"
  shows "map (write_rows w rows) (map (\<lambda>m. if movement_id m = movement_id row then w row m else m) ms)
           = map (write_rows w (row # rows)) ms"
proof -
  have n: "find (\<lambda>r. movement_id r = movement_id row) rows = None"
  proof -
    have "\<forall>x\<in>set rows. movement_id x \<noteq> movement_id row"
      using assms(1) by (metis imageI)
    then show ?thesis by (simp add: find_None_iff2)
  qed
  have "write_rows w rows (if movement_id m = movement_id row then w row m else m)
          = write_rows w (row # rows) m" for m
  proof (cases "movement_id m = movement_id row")
    case True
    then show ?thesis using n assms(2) by (simp add: write_rows_def)
  next
    case False
    then have "movement_id row \<noteq> movement_id m" by simp
    then show ?thesis using False by (simp add: write_rows_def)
  qed
  then show ?thesis by (simp add: comp_def)
qed

lemma correct_inputs_closed:
  assumes "distinct (map movement_id rows)"
  shows "correct_inputs st rows (ms, acc) =
     (case find (\<lambda>r. map_of st (item_id r) = None) rows of
        Some r \<Rightarrow> Inl (UnknownItem (item_id r))
      | None \<Rightarrow>
          Inr (map (write_rows (\<lambda>r. write_cost (input_cost st r) (ledger_average st (item_id r))) rows) ms,
               foldl fadd acc (map (\<lambda>r. fmul (input_cost st r) (Fin (- 1))) rows)))"
  using assms
proof (induction rows arbitrary: ms acc)
  case Nil
  have "map (write_rows w []) ms = ms" for w ms
    by (induction ms) (simp_all add: write_rows_def)
  then show ?case by simp
next
  case (Cons row rows)
  show ?case
  proof (cases "map_of st (item_id row)")
    case None
    then show ?thesis by (simp add: get_stock_def)
  next
    case (Some p)
    let ?w = "\<lambda>r. write_cost (input_cost st r) (ledger_average st (item_id r))"
    have avg: "stock_average_cost p = ledger_average st (item_id row)"
      using Some by (simp add: ledger_average_def)
    have d: "distinct (map movement_id rows)" and n: "movement_id row \<notin> movement_id ` set rows"
      using Cons.prems by auto
    have step: "map (write_rows ?w rows)
        (map (\<lambda>m. if movement_id m = movement_id row then ?w row m else m) ms)
        = map (write_rows ?w (row # rows)) ms"
      by (rule write_rows_step [OF n]) simp
    show ?thesis
      using Some
      by (simp add: get_stock_def Let_def at_writes avg Cons.IH [OF d] step [unfolded input_cost_def]
          input_cost_def del: map_map split: option.splits)
  qed
qed

lemma loc_at_total_cost:
  assumes "i \<in> movement_id ` set ms"
  shows "\<exists>cur. loc (at_total_cost i v ms) i = Inr cur \<and> total_cost cur = v"
  using assms
proof (induction ms)
  case Nil
  then show ?case by simp
next
  case (Cons a ms)
  show ?case
  proof (cases "movement_id a = i")
    case True
    then show ?thesis by (simp add: loc_def at_total_cost_def)
  next
    case False
    then have "i \<in> movement_id ` set ms" using Cons.prems by auto
    from Cons.IH [OF this] show ?thesis using False
      by (simp add: loc_def at_total_cost_def)
  qed
qed

lemma correct_output_closed:
  assumes "movement_id row \<in> movement_id ` set ms"
  shows "correct_output icc s row ms =
    Inr (map (\<lambda>m. if movement_id m = movement_id row
                  then write_cost (output_cost icc s row) (fdiv (output_cost icc s row) (quantity row)) m
                  else m) ms)"
proof -
  from loc_at_total_cost [OF assms, of "output_cost icc s row"] obtain cur where
    "loc (at_total_cost (movement_id row) (output_cost icc s row) ms) (movement_id row) = Inr cur"
    and "total_cost cur = output_cost icc s row"
    by blast
  then show ?thesis
    by (simp add: correct_output_def Let_def at_writes output_cost_def)
qed

lemma outputs_closed:
  assumes "distinct (map movement_id rows)" and "movement_id ` set rows \<subseteq> movement_id ` set ms"
  shows "correct_dismantling_outputs icc s rows ms =
    Inr (map (write_rows (\<lambda>r. write_cost (output_cost icc s r) (fdiv (output_cost icc s r) (quantity r))) rows) ms)"
  using assms
proof (induction rows arbitrary: ms)
  case Nil
  have "map (write_rows w []) ms = ms" for w
    by (induction ms) (simp_all add: write_rows_def)
  then show ?case by simp
next
  case (Cons row rows)
  let ?w = "\<lambda>r. write_cost (output_cost icc s r) (fdiv (output_cost icc s r) (quantity r))"
  let ?ms1 = "map (\<lambda>m. if movement_id m = movement_id row then ?w row m else m) ms"
  have in_ms: "movement_id row \<in> movement_id ` set ms" using Cons.prems(2) by auto
  have d: "distinct (map movement_id rows)" and n: "movement_id row \<notin> movement_id ` set rows"
    using Cons.prems(1) by auto
  have "map movement_id ?ms1 = map movement_id ms"
    by (induction ms) auto
  then have "movement_id ` set ?ms1 = movement_id ` set ms"
    by (metis set_map)
  then have sub: "movement_id ` set rows \<subseteq> movement_id ` set ?ms1"
    using Cons.prems(2) by auto
  have step: "map (write_rows ?w rows) ?ms1 = map (write_rows ?w (row # rows)) ms"
    by (rule write_rows_step [OF n]) simp
  show ?case
    by (simp add: correct_output_closed [OF in_ms] Cons.IH [OF d sub] step del: map_map)
qed

lemma production_outputs_eq:
  "correct_production_outputs icc outs rows ms =
     correct_dismantling_outputs icc (pd_sum (map original_cost outs)) rows ms"
  by (induction rows arbitrary: ms) (auto split: sum.splits)

lemma find_filter_distinct:
  assumes "distinct (map f xs)" and "m \<in> set xs"
  shows "find (\<lambda>r. f r = f m) (filter P xs) = (if P m then Some m else None)"
  using assms
proof (induction xs)
  case Nil
  then show ?case by simp
next
  case (Cons a xs)
  show ?case
  proof (cases "a = m")
    case True
    have "\<forall>x\<in>set xs. f x \<noteq> f m" using Cons.prems(1) True by (metis distinct.simps(2) imageI list.simps(9) set_map)
    then have "find (\<lambda>r. f r = f m) (filter P xs) = None"
      by (simp add: find_None_iff2)
    then show ?thesis using True by simp
  next
    case False
    then have m: "m \<in> set xs" using Cons.prems(2) by simp
    then have "f a \<noteq> f m" using Cons.prems(1) by (metis distinct.simps(2) imageI list.simps(9) set_map)
    then show ?thesis using Cons.IH [OF _ m] Cons.prems(1) by simp
  qed
qed

lemma write_rows_filter:
  assumes "distinct (map movement_id ms)" and "m \<in> set ms" and "movement_id m' = movement_id m"
  shows "write_rows w (filter P ms) m' = (if P m then w m m' else m')"
  using find_filter_distinct [OF assms(1,2), of P] assms(3)
  by (simp add: write_rows_def)

lemma resolve_closed:
  assumes "distinct (map movement_id ms)"
  shows "correct_inputs st (filter inp ms) (ms, Fin 0) =
     (case find (\<lambda>r. map_of st (item_id r) = None) (filter inp ms) of
        Some r \<Rightarrow> Inl (UnknownItem (item_id r))
      | None \<Rightarrow> Inr (map (\<lambda>m. if inp m then resolve_input st m else m) ms,
                     liberated_value st (filter inp ms)))"
    and "correct_dismantling_outputs lv s (filter out ms)
           (map (\<lambda>m. if inp m then resolve_input st m else m) ms) =
         Inr (map (\<lambda>m. if out m then resolve_output lv s m
                  else if inp m then resolve_input st m else m) ms)"
proof -
  have d: "distinct (map movement_id (filter P ms))" for P
    using assms by (simp add: distinct_map_filter)
  have 1: "map (write_rows w (filter P ms)) ms = map (\<lambda>m. if P m then w m m else m) ms" for w P
    using write_rows_filter [OF assms] by simp
  show "correct_inputs st (filter inp ms) (ms, Fin 0) =
     (case find (\<lambda>r. map_of st (item_id r) = None) (filter inp ms) of
        Some r \<Rightarrow> Inl (UnknownItem (item_id r))
      | None \<Rightarrow> Inr (map (\<lambda>m. if inp m then resolve_input st m else m) ms,
                     liberated_value st (filter inp ms)))"
    by (cases "find (\<lambda>r. map_of st (item_id r) = None) (filter inp ms)")
      (simp_all add: correct_inputs_closed [OF d] 1 resolve_input_def [abs_def] liberated_value_def)
  let ?ms1 = "map (\<lambda>m. if inp m then resolve_input st m else m) ms"
  let ?w = "\<lambda>r. write_cost (output_cost lv s r) (fdiv (output_cost lv s r) (quantity r))"
  have ids: "map movement_id ?ms1 = map movement_id ms"
    by (induction ms) (auto simp: resolve_input_def)
  then have "movement_id ` set ?ms1 = movement_id ` set ms"
    by (metis set_map)
  then have sub: "movement_id ` set (filter out ms) \<subseteq> movement_id ` set ?ms1"
    by auto
  have 2: "map (write_rows ?w (filter out ms)) ?ms1 =
      map (\<lambda>m. if out m then resolve_output lv s m else if inp m then resolve_input st m else m) ms"
    using write_rows_filter [OF assms, of _ _ ?w out]
    by (auto simp: resolve_output_def resolve_input_def)
  show "correct_dismantling_outputs lv s (filter out ms) ?ms1 =
         Inr (map (\<lambda>m. if out m then resolve_output lv s m
                  else if inp m then resolve_input st m else m) ms)"
    by (simp only: outputs_closed [OF d sub] 2)
qed

lemma correct_dismantling_closed:
  assumes "distinct (map movement_id ms)"
  shows "correct_dismantling ms g st =
     (if filter (\<lambda>m. dismantling_id m = Some g) ms = [] then Inl GroupNotFound
      else if filter (dismantling_input_of g) ms = [] \<or> filter (dismantling_output_of g) ms = []
      then Inl (IncompleteGroup g)
      else case find (\<lambda>r. map_of st (item_id r) = None) (filter (dismantling_input_of g) ms) of
             Some r \<Rightarrow> Inl (UnknownItem (item_id r))
           | None \<Rightarrow> Inr (resolved (dismantling_input_of g) (dismantling_output_of g) st ms))"
proof -
  have i: "filter is_dismantling_input (filter (\<lambda>m. dismantling_id m = Some g) ms)
             = filter (dismantling_input_of g) ms"
    by (simp add: dismantling_input_of_def [abs_def])
  have out: "filter is_dismantling_output (filter (\<lambda>m. dismantling_id m = Some g) ms)
             = filter (dismantling_output_of g) ms"
    by (simp add: dismantling_output_of_def [abs_def])
  show ?thesis
    unfolding correct_dismantling_def Let_def i out resolve_closed(1) [OF assms]
    by (simp add: resolve_closed(2) [OF assms] resolved_def Let_def split: option.splits)
qed

lemma correct_production_order_closed:
  assumes "distinct (map movement_id ms)"
  shows "correct_production_order ms g st =
     (if filter (\<lambda>m. production_order_id m = Some g) ms = [] then Inl GroupNotFound
      else if filter (production_input_of g) ms = [] then Inl (IncompleteGroup g)
      else case find (\<lambda>r. map_of st (item_id r) = None) (filter (production_input_of g) ms) of
             Some r \<Rightarrow> Inl (UnknownItem (item_id r))
           | None \<Rightarrow> Inr (resolved (production_input_of g) (production_output_of g) st ms))"
proof -
  have i: "filter is_production_order_input (filter (\<lambda>m. production_order_id m = Some g) ms)
             = filter (production_input_of g) ms"
    by (simp add: production_input_of_def [abs_def])
  have out: "filter is_production_order_output (filter (\<lambda>m. production_order_id m = Some g) ms)
             = filter (production_output_of g) ms"
    by (simp add: production_output_of_def [abs_def])
  show ?thesis
    unfolding correct_production_order_def Let_def i out resolve_closed(1) [OF assms]
      production_outputs_eq
    by (simp add: resolve_closed(2) [OF assms] resolved_def Let_def split: option.splits)
qed

section \<open>Production orders without outputs\<close>

text \<open>
  C9: when the selection of a production order is not empty, \<open>correct_production_order\<close>
  fails with "must have both input and output movements" (\<open>IncompleteGroup\<close>) iff the order
  has no input movement; an order with inputs and no output movement is resolved: the call
  returns, with every input revalued at the ledger's average cost and marked, provided the
  ledger lists the inputs' items (the lookup of an unlisted item is the other failure).
\<close>

theorem production_order_incomplete_iff:
  assumes "distinct (map movement_id ms)"
    and "filter (\<lambda>m. production_order_id m = Some pid) ms \<noteq> []"
  shows "(correct_production_order ms pid st = Inl (IncompleteGroup pid) \<longleftrightarrow>
            filter is_production_order_input
              (filter (\<lambda>m. production_order_id m = Some pid) ms) = []) \<and>
         (filter is_production_order_input
            (filter (\<lambda>m. production_order_id m = Some pid) ms) \<noteq> [] \<longrightarrow>
          filter is_production_order_output
            (filter (\<lambda>m. production_order_id m = Some pid) ms) = [] \<longrightarrow>
          (\<forall>r \<in> set ms. production_order_id r = Some pid \<and> is_production_order_input r \<longrightarrow>
                item_id_exists st (item_id r)) \<longrightarrow>
          correct_production_order ms pid st =
            Inr (map (\<lambda>m. if production_order_id m = Some pid \<and> is_production_order_input m
                          then resolve_input st m else m) ms))"
proof -
  have i: "filter is_production_order_input (filter (\<lambda>m. production_order_id m = Some pid) ms)
             = filter (production_input_of pid) ms"
    by (simp add: production_input_of_def [abs_def])
  have out: "filter is_production_order_output (filter (\<lambda>m. production_order_id m = Some pid) ms)
             = filter (production_output_of pid) ms"
    by (simp add: production_output_of_def [abs_def])
  note closed = correct_production_order_closed [OF assms(1), of pid st]
  have 1: "correct_production_order ms pid st = Inl (IncompleteGroup pid) \<longleftrightarrow>
             filter (production_input_of pid) ms = []"
    using assms(2) by (simp add: closed split: option.splits)
  have 2: "correct_production_order ms pid st =
            Inr (map (\<lambda>m. if production_order_id m = Some pid \<and> is_production_order_input m
                          then resolve_input st m else m) ms)"
    if ne: "filter (production_input_of pid) ms \<noteq> []"
      and no: "filter (production_output_of pid) ms = []"
      and ex: "\<forall>r \<in> set ms. production_order_id r = Some pid \<and> is_production_order_input r \<longrightarrow>
                item_id_exists st (item_id r)"
  proof -
    have f: "find (\<lambda>r. map_of st (item_id r) = None) (filter (production_input_of pid) ms) = None"
      using ex by (auto simp: find_None_iff2 production_input_of_def item_id_exists_iff)
    have "\<forall>m \<in> set ms. \<not> production_output_of pid m"
      using no by (simp add: filter_empty_conv)
    then have "resolved (production_input_of pid) (production_output_of pid) st ms =
        map (\<lambda>m. if production_order_id m = Some pid \<and> is_production_order_input m
                  then resolve_input st m else m) ms"
      by (simp add: resolved_def Let_def production_input_of_def)
    then show ?thesis using assms(2) ne f by (simp add: closed)
  qed
  from 1 2 show ?thesis unfolding i out by blast
qed

theorem production_order_incomplete_iff_witness:
  "distinct (map movement_id (StockMovements order_without_output)) \<and>
   filter (\<lambda>m. production_order_id m = Some 9) (StockMovements order_without_output) \<noteq> [] \<and>
   correct_production_order (StockMovements order_without_output) 9 scenario_stock
     \<noteq> Inl (IncompleteGroup 9) \<and>
   map_sum id (map (\<lambda>m. (movement_id m, total_cost m, movement_cost_is_already_correct m)))
     (correct_production_order (StockMovements order_without_output) 9 scenario_stock)
     = Inr [(4, Fin (- 10), True), (7, Fin 10, False)]"
proof -
  let ?T = "StockMovements order_without_output"
  have d: "distinct (map movement_id ?T)" by code_simp
  have s: "filter (\<lambda>m. production_order_id m = Some 9) ?T \<noteq> []" by code_simp
  have a: "filter is_production_order_input (filter (\<lambda>m. production_order_id m = Some 9) ?T) \<noteq> []"
    by code_simp
  have b: "filter is_production_order_output (filter (\<lambda>m. production_order_id m = Some 9) ?T) = []"
    by code_simp
  have c: "\<forall>r \<in> set ?T. production_order_id r = Some 9 \<and> is_production_order_input r \<longrightarrow>
                item_id_exists scenario_stock (item_id r)"
    by code_simp
  have e: "map (\<lambda>m. (movement_id m, total_cost m, movement_cost_is_already_correct m))
             (map (\<lambda>m. if production_order_id m = Some 9 \<and> is_production_order_input m
                          then resolve_input scenario_stock m else m) ?T)
           = [(4, Fin (- 10), True), (7, Fin 10, False)]"
    by code_simp
  from production_order_incomplete_iff [OF d s, of scenario_stock] a b c e d s
  show ?thesis by simp
qed

section \<open>Resolving a group twice\<close>

lemma is_fin_iff: "is_fin x \<longleftrightarrow> (\<exists>a. x = Fin a)"
  by (cases x) (simp_all add: is_fin_def)

lemma fin_val_Fin [simp]: "fin_val (Fin a) = a" "is_fin (Fin a)"
  by (simp_all add: fin_val_def is_fin_def)

lemma Fin_fin_val: "is_fin x \<Longrightarrow> Fin (fin_val x) = x"
  by (auto simp: is_fin_iff)

lemma foldl_fadd_fin:
  "\<forall>x\<in>set xs. is_fin x \<Longrightarrow> foldl fadd (Fin a) xs = Fin (a + sum_list (map fin_val xs))"
proof (induction xs arbitrary: a)
  case Nil
  then show ?case by simp
next
  case (Cons x xs)
  then obtain b where "x = Fin b" by (auto simp: is_fin_iff)
  then show ?case using Cons by (simp add: add.assoc)
qed

lemma pd_sum_fin:
  assumes "\<forall>x\<in>set xs. is_fin x"
  shows "pd_sum xs = Fin (sum_list (map fin_val xs))"
proof -
  have "filter notnull xs = xs"
    using assms by (auto simp: filter_id_conv notnull_def isna_def is_fin_iff)
  then show ?thesis using foldl_fadd_fin [OF assms, of 0] by (simp add: pd_sum_def)
qed

lemma write_cost_keeps [simp]:
  "item_id (write_cost t a m) = item_id m"
  "quantity (write_cost t a m) = quantity m"
  "original_cost (write_cost t a m) = original_cost m"
  "dismantling_id (write_cost t a m) = dismantling_id m"
  "production_order_id (write_cost t a m) = production_order_id m"
  "is_dismantling_input (write_cost t a m) = is_dismantling_input m"
  "is_dismantling_output (write_cost t a m) = is_dismantling_output m"
  "is_production_order_input (write_cost t a m) = is_production_order_input m"
  "is_production_order_output (write_cost t a m) = is_production_order_output m"
  by (simp_all add: write_cost_def)

lemma reads_fixed_groups:
  "reads_fixed (dismantling_input_of g)" "reads_fixed (dismantling_output_of g)"
  "reads_fixed (production_input_of g)" "reads_fixed (production_output_of g)"
  by (simp_all add: reads_fixed_def dismantling_input_of_def dismantling_output_of_def
      production_input_of_def production_output_of_def)

lemma resolved_resolve_row:
  "resolved inp out st ms =
     map (resolve_row inp out st (liberated_value st (filter inp ms))
            (pd_sum (map original_cost (filter out ms)))) ms"
  by (simp add: resolved_def Let_def resolve_row_def [abs_def])

lemma resolve_row_keeps:
  assumes "reads_fixed P"
  shows "P (resolve_row inp out st lv s m) = P m"
  using assms by (simp add: resolve_row_def resolve_output_def resolve_input_def reads_fixed_def)

lemma resolve_row_fields [simp]:
  "item_id (resolve_row inp out st lv s m) = item_id m"
  "quantity (resolve_row inp out st lv s m) = quantity m"
  "original_cost (resolve_row inp out st lv s m) = original_cost m"
  by (simp_all add: resolve_row_def resolve_output_def resolve_input_def)

lemma filter_resolve_row:
  assumes "reads_fixed P"
  shows "filter P (map (resolve_row inp out st lv s) ms) = map (resolve_row inp out st lv s) (filter P ms)"
  by (simp add: filter_map comp_def resolve_row_keeps [OF assms])

lemma input_cost_resolve_row [simp]:
  "input_cost st (resolve_row inp out st' lv s m) = input_cost st m"
  by (simp add: input_cost_def)

lemma output_cost_resolve_row [simp]:
  "output_cost lv s (resolve_row inp out st lv' s' m) = output_cost lv s m"
  by (simp add: output_cost_def)

lemma resolve_row_idem:
  assumes "reads_fixed inp" and "reads_fixed out"
  shows "resolve_row inp out st lv s (resolve_row inp out st lv s m) = resolve_row inp out st lv s m"
proof -
  have "resolve_output lv s (resolve_output lv s m) = resolve_output lv s m"
    by (simp add: resolve_output_def output_cost_def)
  moreover have "resolve_input st (resolve_input st m) = resolve_input st m"
    by (simp add: resolve_input_def input_cost_def)
  moreover have "out (resolve_output lv s m) = out m" "inp (resolve_input st m) = inp m"
    "out (resolve_input st m) = out m"
    using assms by (simp_all add: reads_fixed_def resolve_output_def resolve_input_def)
  ultimately show ?thesis by (simp add: resolve_row_def)
qed

lemma resolved_idem:
  assumes "reads_fixed inp" and "reads_fixed out"
  shows "resolved inp out st (resolved inp out st ms) = resolved inp out st ms"
proof -
  let ?lv = "liberated_value st (filter inp ms)"
  let ?s = "pd_sum (map original_cost (filter out ms))"
  let ?U = "resolve_row inp out st ?lv ?s"
  have lv: "liberated_value st (filter inp (map ?U ms)) = ?lv"
    by (simp add: filter_resolve_row [OF assms(1)] liberated_value_def comp_def)
  have s: "pd_sum (map original_cost (filter out (map ?U ms))) = ?s"
    by (simp add: filter_resolve_row [OF assms(2)] comp_def)
  show ?thesis
    unfolding resolved_resolve_row [of inp out st ms]
    unfolding resolved_resolve_row [of inp out st "map ?U ms"] lv s
    by (simp add: resolve_row_idem [OF assms])
qed

lemma resolved_keeps:
  assumes "reads_fixed P"
  shows "filter P (resolved inp out st ms) = [] \<longleftrightarrow> filter P ms = []"
    and "map item_id (filter P (resolved inp out st ms)) = map item_id (filter P ms)"
  unfolding resolved_resolve_row
  by (simp_all add: filter_resolve_row [OF assms] comp_def)



lemma find_item_missing:
  "find (\<lambda>r. map_of st (item_id r) = None) rows = None \<longleftrightarrow>
     (\<forall>i \<in> set (map item_id rows). map_of st i \<noteq> None)"
  by (simp add: find_None_iff2)

text \<open>
  Resolving a group again with the same ledger changes nothing: what \<open>correct_dismantling\<close>
  writes depends on the ledger and on columns it does not write.
\<close>

lemma correct_dismantling_same_ledger:
  assumes "distinct (map movement_id ms)" and "correct_dismantling ms g st = Inr ms'"
  shows "correct_dismantling ms' g st = Inr ms'"
proof -
  let ?inp = "dismantling_input_of g" and ?out = "dismantling_output_of g"
  let ?sel = "\<lambda>m. dismantling_id m = Some g"
  note c = correct_dismantling_closed [OF assms(1), of g st]
  from assms(2) have sel: "filter ?sel ms \<noteq> []"
    and io: "filter ?inp ms \<noteq> []" "filter ?out ms \<noteq> []"
    and f: "find (\<lambda>r. map_of st (item_id r) = None) (filter ?inp ms) = None"
    and ms': "ms' = resolved ?inp ?out st ms"
    unfolding c by (auto split: if_splits option.splits)
  have rs: "reads_fixed ?sel" by (simp add: reads_fixed_def)
  have d: "distinct (map movement_id ms')"
    using fixed_map_movement_id [OF fixed_correct_dismantling [OF assms(2)]] assms(1) by simp
  have sel': "filter ?sel ms' \<noteq> []"
    using sel resolved_keeps(1) [OF rs] by (simp add: ms')
  have io': "filter ?inp ms' \<noteq> []" "filter ?out ms' \<noteq> []"
    using io resolved_keeps(1) [OF reads_fixed_groups(1)] resolved_keeps(1) [OF reads_fixed_groups(2)]
    by (simp_all add: ms')
  have f': "find (\<lambda>r. map_of st (item_id r) = None) (filter ?inp ms') = None"
    using f unfolding find_item_missing ms' resolved_keeps(2) [OF reads_fixed_groups(1)] .
  have "resolved ?inp ?out st ms' = ms'"
    unfolding ms' by (rule resolved_idem [OF reads_fixed_groups(1,2)])
  then show ?thesis
    using sel' io' f' by (simp add: correct_dismantling_closed [OF d])
qed

text \<open>
  C3 on a concrete pass. The driver skips the resolution of a movement whose row is marked
  \<open>movement_cost_is_already_correct\<close>, and \<open>correct_dismantling\<close> marks every member of
  the group; but the driver reads the mark from the row as it was when the loop started.
  After the first movement of the dismantling has been processed, both members are marked,
  with the costs -100 and 100, and the ledger holds no more of item 1 (average cost 0). At
  the second movement the driver invokes \<open>correct_dismantling\<close> on the group again, and
  the call rewrites the costs to 0 and 0: the pass ends with both costs 0, after the ledger
  was charged -100 for item 1 and 0 for item 2.
\<close>

theorem dismantling_resolved_again:
  "map_sum id (\<lambda>(ms, st, res). (map movement_cost_is_already_correct ms, map total_cost ms,
                                 map (\<lambda>(i, p). (i, stock_average_cost p)) st))
     (pass_loop None (take 1 (StockMovements whole_stock_dismantling))
        (StockMovements whole_stock_dismantling, Stock [start_row 1 (Fin 10) (Fin 100)], new_empty))
     = Inr ([True, True], [Fin (- 100), Fin 100], [(1, Fin 0)]) \<and>
   map_sum id (map total_cost)
     (case pass_loop None (take 1 (StockMovements whole_stock_dismantling))
             (StockMovements whole_stock_dismantling, Stock [start_row 1 (Fin 10) (Fin 100)],
              new_empty) of
        Inl e \<Rightarrow> Inl e
      | Inr (ms, st, res) \<Rightarrow> correct_dismantling ms 1 st)
     = Inr [Fin 0, Fin 0] \<and>
   map_sum id (\<lambda>(ms, st, res). (map total_cost ms,
                                 map (\<lambda>(i, p). (i, stock_quantity p, stock_total_cost p)) st))
     (correct_costs_and_generate_stocks (StockMovements whole_stock_dismantling)
        (Stock [start_row 1 (Fin 10) (Fin 100)]) new_empty)
     = Inr ([Fin 0, Fin 0], [(1, Fin 0, Fin 0), (2, Fin 10, Fin 0)])"
  by code_simp

section \<open>Value conservation\<close>

lemma sum_list_neg: "sum_list (map (\<lambda>r. - f r) xs) = - sum_list (map f xs)" for f :: "'a \<Rightarrow> real"
  by (induction xs) simp_all

lemma sum_list_share:
  "sum_list (map (\<lambda>r. l * (f r / s)) xs) = l * (sum_list (map f xs) / s)" for f :: "'a \<Rightarrow> real"
  by (induction xs) (simp_all add: distrib_left add_divide_distrib)

lemma map_total_cost_outputs:
  assumes "reads_fixed out"
  shows "map total_cost (filter out (resolved inp out st ms)) =
     map (output_cost (liberated_value st (filter inp ms))
            (pd_sum (map original_cost (filter out ms)))) (filter out ms)"
  unfolding resolved_resolve_row filter_resolve_row [OF assms]
  by (simp add: resolve_row_def resolve_output_def)

lemma map_total_cost_inputs:
  assumes "reads_fixed inp" and "\<forall>m\<in>set ms. \<not> (inp m \<and> out m)"
  shows "map total_cost (filter inp (resolved inp out st ms)) = map (input_cost st) (filter inp ms)"
  unfolding resolved_resolve_row filter_resolve_row [OF assms(1)]
  using assms(2) by (auto simp: resolve_row_def resolve_input_def)

lemma resolved_conservation:
  assumes ri: "reads_fixed inp" and ro: "reads_fixed out"
    and dis: "\<forall>m\<in>set ms. \<not> (inp m \<and> out m)"
    and fi: "\<forall>m\<in>set ms. inp m \<longrightarrow> is_fin (quantity m) \<and> is_fin (ledger_average st (item_id m))"
    and fo: "\<forall>m\<in>set ms. out m \<longrightarrow> is_fin (original_cost m)"
    and nz: "pd_sum (map original_cost (filter out ms)) \<noteq> Fin 0"
  shows "pd_sum (map total_cost (filter out (resolved inp out st ms))) =
         fneg (pd_sum (map total_cost (filter inp (resolved inp out st ms))))"
proof -
  let ?ins = "filter inp ms" and ?outs = "filter out ms"
  define ic where "ic r = fin_val (quantity r) * fin_val (ledger_average st (item_id r))"
    for r :: movement
  define L where "L = - sum_list (map ic ?ins)"
  define S where "S = sum_list (map (fin_val \<circ> original_cost) ?outs)"
  have ic: "input_cost st r = Fin (ic r)" if "r \<in> set ?ins" for r
  proof -
    from that fi obtain q a where "quantity r = Fin q" "ledger_average st (item_id r) = Fin a"
      by (auto simp: is_fin_iff)
    then show ?thesis by (simp add: input_cost_def ic_def)
  qed
  have ins_sum: "pd_sum (map (input_cost st) ?ins) = Fin (- L)"
  proof -
    have e: "map (input_cost st) ?ins = map (\<lambda>r. Fin (ic r)) ?ins"
      by (rule map_cong [OF refl]) (rule ic)
    have "pd_sum (map (\<lambda>r. Fin (ic r)) ?ins) = Fin (sum_list (map ic ?ins))"
      by (subst pd_sum_fin) (simp_all add: comp_def)
    then show ?thesis unfolding e by (simp add: L_def)
  qed
  have lv: "liberated_value st ?ins = Fin L"
  proof -
    have e: "map (\<lambda>r. fmul (input_cost st r) (Fin (- 1))) ?ins = map (\<lambda>r. Fin (- ic r)) ?ins"
      by (rule map_cong [OF refl]) (simp add: ic)
    have "foldl fadd (Fin 0) (map (\<lambda>r. Fin (- ic r)) ?ins)
        = Fin (0 + sum_list (map fin_val (map (\<lambda>r. Fin (- ic r)) ?ins)))"
      by (rule foldl_fadd_fin) simp
    then show ?thesis
      unfolding liberated_value_def e by (simp add: L_def comp_def sum_list_neg)
  qed
  have s: "pd_sum (map original_cost ?outs) = Fin S"
    using fo by (subst pd_sum_fin) (simp_all add: S_def)
  have S0: "S \<noteq> 0" using nz s by simp
  have oc: "output_cost (Fin L) (Fin S) r = Fin (L * (fin_val (original_cost r) / S))"
    if "r \<in> set ?outs" for r
  proof -
    from that fo obtain c where "original_cost r = Fin c" by (auto simp: is_fin_iff)
    then show ?thesis using S0 by (simp add: output_cost_def)
  qed
  have outs_sum: "pd_sum (map (output_cost (Fin L) (Fin S)) ?outs) = Fin L"
  proof -
    have e: "map (output_cost (Fin L) (Fin S)) ?outs
        = map (\<lambda>r. Fin (L * (fin_val (original_cost r) / S))) ?outs"
      by (rule map_cong [OF refl]) (rule oc)
    have p: "pd_sum (map (\<lambda>r. Fin (L * (fin_val (original_cost r) / S))) ?outs)
        = Fin (sum_list (map (\<lambda>r. L * (fin_val (original_cost r) / S)) ?outs))"
      by (subst pd_sum_fin) (simp_all add: comp_def)
    have "sum_list (map (\<lambda>r. L * ((fin_val \<circ> original_cost) r / S)) ?outs) = L * (S / S)"
      unfolding S_def by (rule sum_list_share)
    then have sh: "sum_list (map (\<lambda>r. L * (fin_val (original_cost r) / S)) ?outs) = L"
      using S0 by (simp add: comp_def)
    show ?thesis unfolding e p sh ..
  qed
  show ?thesis
    unfolding map_total_cost_outputs [OF ro] map_total_cost_inputs [OF ri dis] lv s outs_sum ins_sum
    by simp
qed

lemma select_groups:
  "filter is_dismantling_input (filter (\<lambda>m. dismantling_id m = Some g) ms)
     = filter (dismantling_input_of g) ms"
  "filter is_dismantling_output (filter (\<lambda>m. dismantling_id m = Some g) ms)
     = filter (dismantling_output_of g) ms"
  "filter is_production_order_input (filter (\<lambda>m. production_order_id m = Some g) ms)
     = filter (production_input_of g) ms"
  "filter is_production_order_output (filter (\<lambda>m. production_order_id m = Some g) ms)
     = filter (production_output_of g) ms"
  by (simp_all add: dismantling_input_of_def [abs_def] dismantling_output_of_def [abs_def]
      production_input_of_def [abs_def] production_output_of_def [abs_def])

lemma sum_list_pos_real:
  fixes f :: "'a \<Rightarrow> real"
  assumes "xs \<noteq> []" and "\<forall>x\<in>set xs. 0 < f x"
  shows "0 < sum_list (map f xs)"
  using assms
proof (induction xs)
  case Nil
  then show ?case by simp
next
  case (Cons x xs)
  show ?case
  proof (cases "xs = []")
    case True
    then show ?thesis using Cons.prems by simp
  next
    case False
    then have "0 < sum_list (map f xs)" using Cons by simp
    moreover have "0 < f x" using Cons.prems by simp
    ultimately show ?thesis by simp
  qed
qed

lemma dismantling_conservation:
  assumes d: "distinct (map movement_id ms)"
    and cl: "classified ms"
    and fi: "\<forall>m\<in>set ms. dismantling_id m = Some g \<and> is_dismantling_input m \<longrightarrow>
               is_fin (quantity m) \<and> is_fin (ledger_average st (item_id m))"
    and fo: "\<forall>m\<in>set ms. dismantling_id m = Some g \<and> is_dismantling_output m \<longrightarrow>
               is_fin (original_cost m)"
    and r: "correct_dismantling ms g st = Inr ms'"
  shows "pd_sum (map total_cost (filter is_dismantling_output
                  (filter (\<lambda>m. dismantling_id m = Some g) ms'))) =
         fneg (pd_sum (map total_cost (filter is_dismantling_input
                  (filter (\<lambda>m. dismantling_id m = Some g) ms'))))"
proof -
  let ?inp = "dismantling_input_of g" and ?out = "dismantling_output_of g"
  from r have ne: "filter ?out ms \<noteq> []" and ms': "ms' = resolved ?inp ?out st ms"
    unfolding correct_dismantling_closed [OF d] by (auto split: if_splits option.splits)
  have dis: "\<forall>m\<in>set ms. \<not> (?inp m \<and> ?out m)"
  proof
    fix m assume m: "m \<in> set ms"
    show "\<not> (?inp m \<and> ?out m)"
    proof
      assume "?inp m \<and> ?out m"
      then have "flt (original_cost m) (Fin 0)" "fgt (original_cost m) (Fin 0)"
        using cl m by (auto simp: classified_def dismantling_input_of_def dismantling_output_of_def)
      then show False by (cases "original_cost m") (simp_all add: fgt_def)
    qed
  qed
  have fo': "\<forall>m\<in>set ms. ?out m \<longrightarrow> is_fin (original_cost m)"
    using fo by (simp add: dismantling_output_of_def)
  have pos: "\<forall>x\<in>set (filter ?out ms). 0 < (fin_val \<circ> original_cost) x"
  proof
    fix x assume x: "x \<in> set (filter ?out ms)"
    then have "fgt (original_cost x) (Fin 0)" and "is_fin (original_cost x)"
      using cl fo' by (auto simp: classified_def dismantling_output_of_def)
    then show "0 < (fin_val \<circ> original_cost) x"
      by (auto simp: is_fin_iff fgt_def)
  qed
  have "pd_sum (map original_cost (filter ?out ms))
          = Fin (sum_list (map fin_val (map original_cost (filter ?out ms))))"
    using fo' by (intro pd_sum_fin) simp
  moreover have "0 < sum_list (map (fin_val \<circ> original_cost) (filter ?out ms))"
    by (rule sum_list_pos_real [OF ne pos])
  ultimately have nz: "pd_sum (map original_cost (filter ?out ms)) \<noteq> Fin 0"
    by simp
  have fi': "\<forall>m\<in>set ms. ?inp m \<longrightarrow> is_fin (quantity m) \<and> is_fin (ledger_average st (item_id m))"
    using fi by (simp add: dismantling_input_of_def)
  show ?thesis
    unfolding select_groups ms'
    by (rule resolved_conservation [OF reads_fixed_groups(1,2) dis fi' fo' nz])
qed

lemma production_conservation:
  assumes d: "distinct (map movement_id ms)"
    and fi: "\<forall>m\<in>set ms. production_order_id m = Some g \<and> is_production_order_input m \<longrightarrow>
               is_fin (quantity m) \<and> is_fin (ledger_average st (item_id m)) \<and>
               \<not> is_production_order_output m"
    and fo: "\<forall>m\<in>set ms. production_order_id m = Some g \<and> is_production_order_output m \<longrightarrow>
               is_fin (original_cost m)"
    and nz: "pd_sum (map original_cost (filter is_production_order_output
               (filter (\<lambda>m. production_order_id m = Some g) ms))) \<noteq> Fin 0"
    and r: "correct_production_order ms g st = Inr ms'"
  shows "pd_sum (map total_cost (filter is_production_order_output
                  (filter (\<lambda>m. production_order_id m = Some g) ms'))) =
         fneg (pd_sum (map total_cost (filter is_production_order_input
                  (filter (\<lambda>m. production_order_id m = Some g) ms'))))"
proof -
  let ?inp = "production_input_of g" and ?out = "production_output_of g"
  from r have ms': "ms' = resolved ?inp ?out st ms"
    unfolding correct_production_order_closed [OF d] by (auto split: if_splits option.splits)
  have dis: "\<forall>m\<in>set ms. \<not> (?inp m \<and> ?out m)"
    using fi by (auto simp: production_input_of_def production_output_of_def)
  have fo': "\<forall>m\<in>set ms. ?out m \<longrightarrow> is_fin (original_cost m)"
    using fo by (simp add: production_output_of_def)
  have fi': "\<forall>m\<in>set ms. ?inp m \<longrightarrow> is_fin (quantity m) \<and> is_fin (ledger_average st (item_id m))"
    using fi by (simp add: production_input_of_def)
  have nz': "pd_sum (map original_cost (filter ?out ms)) \<noteq> Fin 0"
    using nz unfolding select_groups .
  show ?thesis
    unfolding select_groups ms'
    by (rule resolved_conservation [OF reads_fixed_groups(3,4) dis fi' fo' nz'])
qed

text \<open>
  C2, as stated: every production order resolved without error, with inputs and outputs,
  conserves value. It fails on an order whose only output has the original cost 0: the
  input is revalued at -10, the output's share is 0 / 0 = NaN, so the outputs' costs sum
  to 0 (NaN is skipped; NaN if it is not) and not to 10.
\<close>

theorem value_conservation_counterexample:
  "map_sum id
     (\<lambda>ms'. (map total_cost (filter is_production_order_output
                (filter (\<lambda>m. production_order_id m = Some 9) ms')),
             pd_sum (map total_cost (filter is_production_order_output
                (filter (\<lambda>m. production_order_id m = Some 9) ms'))),
             fneg (pd_sum (map total_cost (filter is_production_order_input
                (filter (\<lambda>m. production_order_id m = Some 9) ms'))))))
     (correct_production_order (StockMovements order_with_free_output) 9 scenario_stock)
   = Inr ([NaN], Fin 0, Fin 10)"
  by code_simp

text \<open>
  C2, amended: in exact arithmetic on finite values, after a resolution that returns, the
  outputs' \<open>total_cost\<close> sum to the negation of the sum of the inputs' \<open>total_cost\<close>
  for every dismantling group, and for every production order whose outputs' original costs
  do not sum to zero and none of whose input movements is also an output movement.
\<close>

theorem value_conservation:
  "distinct (map movement_id ms) \<longrightarrow>
   (classified ms \<longrightarrow>
    (\<forall>m\<in>set ms. dismantling_id m = Some g \<and> is_dismantling_input m \<longrightarrow>
        is_fin (quantity m) \<and> is_fin (ledger_average st (item_id m))) \<longrightarrow>
    (\<forall>m\<in>set ms. dismantling_id m = Some g \<and> is_dismantling_output m \<longrightarrow>
        is_fin (original_cost m)) \<longrightarrow>
    correct_dismantling ms g st = Inr msd \<longrightarrow>
    pd_sum (map total_cost (filter is_dismantling_output
              (filter (\<lambda>m. dismantling_id m = Some g) msd))) =
    fneg (pd_sum (map total_cost (filter is_dismantling_input
              (filter (\<lambda>m. dismantling_id m = Some g) msd))))) \<and>
   ((\<forall>m\<in>set ms. production_order_id m = Some pid \<and> is_production_order_input m \<longrightarrow>
        is_fin (quantity m) \<and> is_fin (ledger_average st (item_id m)) \<and>
        \<not> is_production_order_output m) \<longrightarrow>
    (\<forall>m\<in>set ms. production_order_id m = Some pid \<and> is_production_order_output m \<longrightarrow>
        is_fin (original_cost m)) \<longrightarrow>
    pd_sum (map original_cost (filter is_production_order_output
              (filter (\<lambda>m. production_order_id m = Some pid) ms))) \<noteq> Fin 0 \<longrightarrow>
    correct_production_order ms pid st = Inr msp \<longrightarrow>
    pd_sum (map total_cost (filter is_production_order_output
              (filter (\<lambda>m. production_order_id m = Some pid) msp))) =
    fneg (pd_sum (map total_cost (filter is_production_order_input
              (filter (\<lambda>m. production_order_id m = Some pid) msp)))))"
  using dismantling_conservation [of ms g st msd] production_conservation [of ms pid st msp]
  by blast

theorem value_conservation_witness:
  "distinct (map movement_id (StockMovements scenario_rows)) \<and>
   classified (StockMovements scenario_rows) \<and>
   (\<exists>msd. correct_dismantling (StockMovements scenario_rows) 2 scenario_stock = Inr msd \<and>
      pd_sum (map total_cost (filter is_dismantling_output
                (filter (\<lambda>m. dismantling_id m = Some 2) msd))) =
      fneg (pd_sum (map total_cost (filter is_dismantling_input
                (filter (\<lambda>m. dismantling_id m = Some 2) msd))))) \<and>
   (\<exists>msp. correct_production_order (StockMovements scenario_rows) 9 scenario_stock = Inr msp \<and>
      pd_sum (map total_cost (filter is_production_order_output
                (filter (\<lambda>m. production_order_id m = Some 9) msp))) =
      fneg (pd_sum (map total_cost (filter is_production_order_input
                (filter (\<lambda>m. production_order_id m = Some 9) msp)))))"
proof -
  let ?T = "StockMovements scenario_rows"
  have d: "distinct (map movement_id ?T)" by code_simp
  have c: "classified ?T" by code_simp
  have h1: "\<forall>m\<in>set ?T. dismantling_id m = Some 2 \<and> is_dismantling_input m \<longrightarrow>
        is_fin (quantity m) \<and> is_fin (ledger_average scenario_stock (item_id m))"
    by code_simp
  have h2: "\<forall>m\<in>set ?T. dismantling_id m = Some 2 \<and> is_dismantling_output m \<longrightarrow>
        is_fin (original_cost m)"
    by code_simp
  have h3: "\<forall>m\<in>set ?T. production_order_id m = Some 9 \<and> is_production_order_input m \<longrightarrow>
        is_fin (quantity m) \<and> is_fin (ledger_average scenario_stock (item_id m)) \<and>
        \<not> is_production_order_output m"
    by code_simp
  have h4: "\<forall>m\<in>set ?T. production_order_id m = Some 9 \<and> is_production_order_output m \<longrightarrow>
        is_fin (original_cost m)"
    by code_simp
  have h5: "pd_sum (map original_cost (filter is_production_order_output
              (filter (\<lambda>m. production_order_id m = Some 9) ?T))) \<noteq> Fin 0"
    by code_simp
  have "succeeds (correct_dismantling ?T 2 scenario_stock)" by code_simp
  then obtain msd where rd: "correct_dismantling ?T 2 scenario_stock = Inr msd"
    by (auto dest: succeedsD)
  have "succeeds (correct_production_order ?T 9 scenario_stock)" by code_simp
  then obtain msp where rp: "correct_production_order ?T 9 scenario_stock = Inr msp"
    by (auto dest: succeedsD)
  from value_conservation [where ms = ?T and g = 2 and st = scenario_stock and msd = msd
      and pid = 9 and msp = msp] d c h1 h2 h3 h4 h5 rd rp
  have "pd_sum (map total_cost (filter is_dismantling_output
                (filter (\<lambda>m. dismantling_id m = Some 2) msd))) =
      fneg (pd_sum (map total_cost (filter is_dismantling_input
                (filter (\<lambda>m. dismantling_id m = Some 2) msd))))"
    and "pd_sum (map total_cost (filter is_production_order_output
                (filter (\<lambda>m. production_order_id m = Some 9) msp))) =
      fneg (pd_sum (map total_cost (filter is_production_order_input
                (filter (\<lambda>m. production_order_id m = Some 9) msp))))"
    by blast+
  with d c rd rp show ?thesis
    by (intro conjI exI [of _ msd] exI [of _ msp]) simp_all
qed

section \<open>Dismantling groups\<close>

lemma group_scan_ids: "map fst (group_scan cur rows) = map movement_id rows"
  by (induction cur rows rule: group_scan.induct) auto

lemma assign_group_fields [simp]:
  "movement_id (assign_group a m) = movement_id m"
  "is_dismantling (assign_group a m) = is_dismantling m"
  "no_group (assign_group a m) = no_group m"
  by (simp_all add: assign_group_def no_group_def split: option.splits)

lemma assign_group_step:
  assumes "i \<notin> fst ` set a"
  shows "map (assign_group a) (at_dismantling_id i (Some g) ms) = map (assign_group ((i, g) # a)) ms"
proof -
  have n: "map_of a i = None" using assms by (simp add: map_of_eq_None_iff)
  have "assign_group a (if movement_id m = i then m\<lparr>dismantling_id := Some g\<rparr> else m)
          = assign_group ((i, g) # a) m" for m
    using n by (simp add: assign_group_def)
  then show ?thesis by (simp add: at_dismantling_id_def comp_def)
qed

lemma dismantling_id_loop_scan:
  assumes "distinct (map movement_id rows)"
    and "did = map_option fst cur"
    and "lwo = (case cur of None \<Rightarrow> False | Some (g, members) \<Rightarrow> list_ex is_dismantling_output members)"
  shows "dismantling_id_loop did lwo rows ms = map (assign_group (group_scan cur rows)) ms"
  using assms
proof (induction rows arbitrary: did lwo cur ms)
  case Nil
  have "map (assign_group []) ms = ms"
    by (induction ms) (simp_all add: assign_group_def)
  then show ?case by simp
next
  case (Cons row rows)
  have d: "distinct (map movement_id rows)" and n: "movement_id row \<notin> movement_id ` set rows"
    using Cons.prems(1) by auto
  have nf: "movement_id row \<notin> fst ` set (group_scan c rows)" for c
    using n group_scan_ids [of c rows] by (metis set_map)
  show ?case
  proof (cases cur)
    case None
    then have st: "did = None" "lwo = False" using Cons.prems by simp_all
    let ?cur = "Some (movement_id row, [row])"
    have ih: "dismantling_id_loop (Some (movement_id row)) b rows ms'
          = map (assign_group (group_scan ?cur rows)) ms'" if "b = is_dismantling_output row" for ms' b
      using that by (intro Cons.IH [OF d]) simp_all
    show ?thesis
      using None st by (simp add: Let_def ih assign_group_step [OF nf] del: map_map)
  next
    case (Some c)
    obtain g members where c: "c = (g, members)" by (cases c)
    have st: "did = Some g" "lwo = list_ex is_dismantling_output members"
      using Cons.prems Some c by simp_all
    show ?thesis
    proof (cases "is_dismantling_input row \<and> list_ex is_dismantling_output members")
      case True
      let ?cur = "Some (movement_id row, [row])"
      have ih: "dismantling_id_loop (Some (movement_id row)) b rows ms'
            = map (assign_group (group_scan ?cur rows)) ms'" if "b = is_dismantling_output row" for ms' b
        using that by (intro Cons.IH [OF d]) simp_all
      show ?thesis
        using Some c st True by (simp add: Let_def ih assign_group_step [OF nf] del: map_map)
    next
      case False
      let ?cur = "Some (g, members @ [row])"
      have ih: "dismantling_id_loop (Some g) b rows ms'
            = map (assign_group (group_scan ?cur rows)) ms'"
        if "b = (is_dismantling_output row \<or> list_ex is_dismantling_output members)" for ms' b
        using that by (intro Cons.IH [OF d]) auto
      have e: "(did = None \<or> (is_dismantling_input row \<and> lwo)) = False"
        using st False by simp
      have step: "dismantling_id_loop did lwo (row # rows) ms =
          dismantling_id_loop (Some g)
            (is_dismantling_output row \<or> list_ex is_dismantling_output members) rows
            (at_dismantling_id (movement_id row) (Some g) ms)"
        unfolding dismantling_id_loop.simps Let_def e using st by simp
      have gs: "group_scan cur (row # rows) = (movement_id row, g) # group_scan ?cur rows"
        unfolding Some c group_scan.simps using False by (rule if_not_P)
      show ?thesis
        unfolding step gs by (simp add: ih assign_group_step [OF nf] del: map_map)
    qed
  qed
qed

lemma set_dismantling_id_scan:
  assumes "distinct (map movement_id ms)"
  shows "set_dismantling_id ms =
     map (assign_group (group_scan None (filter is_dismantling ms)) \<circ> no_group) ms"
proof -
  have "distinct (map movement_id (filter is_dismantling ms))"
    using assms by (rule distinct_map_filter)
  from dismantling_id_loop_scan [OF this, of None None False]
  show ?thesis by (simp add: set_dismantling_id_def no_group_def [abs_def])
qed

lemma map_of_keys:
  assumes "distinct (map fst a)"
  shows "map (\<lambda>i. (i, map_of a i)) (map fst a) = map (\<lambda>(i, g). (i, Some g)) a"
  using assms
proof (induction a)
  case Nil
  then show ?case by simp
next
  case (Cons x a)
  obtain i g where x: "x = (i, g)" by (cases x)
  have "map (\<lambda>j. (j, map_of (x # a) j)) (map fst a) = map (\<lambda>j. (j, map_of a j)) (map fst a)"
    using Cons.prems x by (auto simp: image_iff)
  then show ?case using Cons x by simp
qed

lemma dismantling_id_assign [simp]:
  "dismantling_id (assign_group a (no_group m)) = map_of a (movement_id m)"
  by (simp add: assign_group_def no_group_def split: option.splits)

lemma no_group_fields [simp]:
  "movement_id (no_group m) = movement_id m"
  "is_dismantling (no_group m) = is_dismantling m"
  by (simp_all add: no_group_def)

text \<open>
  C7: on a frame with unique movement ids, \<open>set_dismantling_id\<close> gives every dismantling
  movement a group id and no other movement one; scanning the dismantling movements in
  frame order, a new group named by the movement's id is opened exactly when no group is
  open or the movement is a dismantling input and the open group already has an output,
  and otherwise the movement receives the id of the open group.
\<close>

theorem group_ids_follow_scan:
  assumes "distinct (map movement_id ms)"
  shows "map (\<lambda>m. (movement_id m, dismantling_id m)) (filter is_dismantling (set_dismantling_id ms))
           = map (\<lambda>(i, g). (i, Some g)) (group_scan None (filter is_dismantling ms)) \<and>
         (\<forall>m\<in>set (set_dismantling_id ms). is_dismantling m \<longrightarrow> dismantling_id m \<noteq> None) \<and>
         (\<forall>m\<in>set (set_dismantling_id ms). \<not> is_dismantling m \<longrightarrow> dismantling_id m = None)"
proof -
  let ?rows = "filter is_dismantling ms"
  let ?A = "group_scan None ?rows"
  have sd: "set_dismantling_id ms = map (assign_group ?A \<circ> no_group) ms"
    by (rule set_dismantling_id_scan [OF assms])
  have keys: "map fst ?A = map movement_id ?rows" by (rule group_scan_ids)
  have dr: "distinct (map movement_id ?rows)" using assms by (rule distinct_map_filter)
  then have dA: "distinct (map fst ?A)" by (simp add: keys)
  have f: "filter is_dismantling (set_dismantling_id ms) = map (assign_group ?A \<circ> no_group) ?rows"
    by (simp add: sd filter_map comp_def)
  have "map (\<lambda>m. (movement_id m, dismantling_id m)) (map (assign_group ?A \<circ> no_group) ?rows)
          = map (\<lambda>i. (i, map_of ?A i)) (map movement_id ?rows)"
    by (simp add: comp_def)
  also have "\<dots> = map (\<lambda>i. (i, map_of ?A i)) (map fst ?A)" by (simp only: keys)
  also have "\<dots> = map (\<lambda>(i, g). (i, Some g)) ?A" by (rule map_of_keys [OF dA])
  finally have 1: "map (\<lambda>m. (movement_id m, dismantling_id m))
      (filter is_dismantling (set_dismantling_id ms)) = map (\<lambda>(i, g). (i, Some g)) ?A"
    by (simp only: f)
  have 2: "dismantling_id m' \<noteq> None"
    if "m' \<in> set (set_dismantling_id ms)" and "is_dismantling m'" for m'
  proof -
    from that obtain m where m: "m \<in> set ms" "is_dismantling m"
      and m': "m' = assign_group ?A (no_group m)"
      by (auto simp: sd)
    then have "movement_id m \<in> set (map movement_id ?rows)" by auto
    then have "movement_id m \<in> fst ` set ?A" by (metis keys set_map)
    then show ?thesis by (simp add: m' map_of_eq_None_iff)
  qed
  have 3: "dismantling_id m' = None"
    if "m' \<in> set (set_dismantling_id ms)" and "\<not> is_dismantling m'" for m'
  proof -
    from that obtain m where m: "m \<in> set ms" "\<not> is_dismantling m"
      and m': "m' = assign_group ?A (no_group m)"
      by (auto simp: sd)
    have "movement_id m \<notin> movement_id ` set ?rows"
    proof
      assume "movement_id m \<in> movement_id ` set ?rows"
      then obtain r where r: "r \<in> set ms" "is_dismantling r" "movement_id r = movement_id m"
        by auto
      with assms m(1) have "r = m" by (meson distinct_map inj_onD)
      with r m show False by simp
    qed
    then have "movement_id m \<notin> fst ` set ?A" by (metis keys set_map)
    then show ?thesis by (simp add: m' map_of_eq_None_iff)
  qed
  from 1 2 3 show ?thesis by blast
qed

theorem group_ids_follow_scan_witness:
  "distinct (map movement_id (order_by_correct_movement_date (set_init_columns dismantling_rows))) \<and>
   map (\<lambda>m. (movement_id m, dismantling_id m))
     (filter is_dismantling
        (set_dismantling_id (order_by_correct_movement_date (set_init_columns dismantling_rows))))
     = [(1, Some 1), (2, Some 1), (3, Some 1), (5, Some 1), (6, Some 6), (7, Some 6)] \<and>
   list_all (\<lambda>m. is_dismantling m \<longrightarrow> dismantling_id m \<noteq> None)
     (set_dismantling_id (order_by_correct_movement_date (set_init_columns dismantling_rows)))"
proof -
  let ?T = "order_by_correct_movement_date (set_init_columns dismantling_rows)"
  have d: "distinct (map movement_id ?T)" by code_simp
  have s: "map (\<lambda>(i, g). (i, Some g)) (group_scan None (filter is_dismantling ?T))
      = [(1, Some 1), (2, Some 1), (3, Some 1), (5, Some 1), (6, Some 6), (7, Some 6)]"
    by code_simp
  from group_ids_follow_scan [OF d] d s show ?thesis
    by (simp add: list_all_iff)
qed

section \<open>The processing order\<close>

lemma keys_set_init_columns: "map sort_by_key (set_init_columns ms) = map effective_key ms"
  unfolding set_init_columns_def set_is_entry_def set_is_production_order_output_def
    set_is_production_order_input_def set_is_production_order_def
    set_is_dismantling_output_def set_is_dismantling_input_def set_is_dismantling_def
    set_correct_movement_date_def
  by (simp add: comp_def sort_by_key_def effective_key_def effective_date_def)

lemma no_group_at_dismantling_id [simp]:
  "map no_group (at_dismantling_id i v ms) = map no_group ms"
  by (simp add: at_dismantling_id_def no_group_def)

lemma no_group_loop: "map no_group (dismantling_id_loop did lwo rows ms) = map no_group ms"
  by (induction did lwo rows ms rule: dismantling_id_loop.induct) (simp_all add: Let_def)

lemma no_group_set_dismantling_id: "map no_group (set_dismantling_id ms) = map no_group ms"
  by (simp add: set_dismantling_id_def no_group_loop no_group_def)

lemma keys_set_dismantling_id: "map sort_by_key (set_dismantling_id ms) = map sort_by_key ms"
proof -
  have "map sort_by_key (map no_group xs) = map sort_by_key xs" for xs
    by (simp add: sort_by_key_def no_group_def)
  from this [of "set_dismantling_id ms"] this [of ms] show ?thesis
    by (simp only: no_group_set_dismantling_id)
qed

lemma keys_set_movement_cost:
  "map sort_by_key (set_movement_cost_is_already_correct ms) = map sort_by_key ms"
  by (simp add: set_movement_cost_is_already_correct_def sort_by_key_def)

lemma keys_sorted: "map f (sort_key f xs) = sort (map f xs)"
proof -
  have "mset (map f (sort_key f xs)) = mset (map f xs)" by simp
  moreover have "sorted (map f (sort_key f xs))" by simp
  ultimately show ?thesis by (rule properties_for_sort [symmetric])
qed

lemma keys_StockMovements: "map sort_by_key (StockMovements raw) = sort (map effective_key raw)"
  by (simp add: StockMovements_def keys_set_movement_cost keys_set_dismantling_id
      order_by_correct_movement_date_def keys_sorted keys_set_init_columns)

lemma keys_fixed:
  assumes "map fixed_columns a = map fixed_columns b"
  shows "map sort_by_key a = map sort_by_key b"
proof -
  have "map sort_by_key (map fixed_columns xs) = map sort_by_key xs" for xs
    by (simp add: sort_by_key_def)
  from this [of a] this [of b] show ?thesis
    by (simp only: assms)
qed

text \<open>
  The pass is a left-to-right sweep of the frame: running it over \<open>xs @ ys\<close> is running it
  over \<open>xs\<close> and then, from the state reached, over \<open>ys\<close>.
\<close>

lemma pass_loop_append:
  "pass_loop ld (xs @ ys) s =
     (case pass_loop ld xs s of
        Inl e \<Rightarrow> Inl e
      | Inr s' \<Rightarrow>
          pass_loop (if xs = [] then ld else Some (correct_movement_date (last xs))) ys s')"
proof (induction xs arbitrary: ld s)
  case Nil
  then show ?case by simp
next
  case (Cons x xs)
  obtain ms st res where s: "s = (ms, st, res)" by (cases s)
  show ?case
    unfolding s by (auto simp: Let_def Cons.IH split: sum.splits)
qed

text \<open>The loop of the driver is this fold over the rows.\<close>

lemma foldl_stops:
  "foldl (\<lambda>acc row. case acc of Inl e \<Rightarrow> Inl e | Inr t \<Rightarrow> f row t) (Inl e) rows = Inl e"
  by (induction rows) simp_all

lemma snapshot_unfold:
  "snapshot ld row st res =
     (case ld of
        None \<Rightarrow> res
      | Some l \<Rightarrow>
          if month l \<noteq> month (correct_movement_date row) \<or>
             year l \<noteq> year (correct_movement_date row)
          then insert_new_entry res (month l) (year l)
                 (pd_sum (map (stock_total_cost \<circ> snd) st))
                 (pd_sum (map (original_total_cost \<circ> snd) st))
          else res)"
  by (cases ld) (simp_all add: snapshot_def month_changed_def)

lemma process_movement_body:
  "process_movement row (ld, ms, st, res) =
     (case correct_row row ms st of
        Inl e \<Rightarrow> Inl e
      | Inr ms1 \<Rightarrow>
          (case insert_movement_to_stock ms1 (movement_id row) st of
             Inl e \<Rightarrow> Inl e
           | Inr (ms2, st2) \<Rightarrow>
               Inr (Some (correct_movement_date row), ms2, st2, snapshot ld row st res)))"
  unfolding process_movement_def correct_row_def snapshot_unfold by simp

lemma pass_loop_fold:
  "pass_loop ld rows s =
     map_sum id snd
       (foldl (\<lambda>acc row. case acc of Inl e \<Rightarrow> Inl e | Inr t \<Rightarrow> process_movement row t)
          (Inr (ld, s)) rows)"
proof (induction rows arbitrary: ld s)
  case Nil
  then show ?case by simp
next
  case (Cons row rows)
  obtain ms st res where s: "s = (ms, st, res)" by (cases s)
  show ?case
  proof (cases "correct_row row ms st")
    case (Inl e)
    then show ?thesis by (simp add: s process_movement_body foldl_stops)
  next
    case (Inr ms1)
    show ?thesis
    proof (cases "insert_movement_to_stock ms1 (movement_id row) st")
      case (Inl e)
      then show ?thesis using Inr by (simp add: s process_movement_body foldl_stops)
    next
      case ins: (Inr p)
      obtain ms2 st2 where p: "p = (ms2, st2)" by (cases p)
      show ?thesis
        using Inr ins p by (simp add: s process_movement_body Cons.IH)
    qed
  qed
qed

text \<open>
  C8: the frame the constructor builds lists the movements by non-decreasing effective
  date, ties by ascending movement id: its keys are the sorted keys of the input records,
  whatever the order of the input records. The driver processes the movements of the frame
  one after the other in this order, each in the state the movements before it have left,
  and returns the frame in the same order.
\<close>

theorem processing_order:
  "map sort_by_key (StockMovements raw) = sort (map effective_key raw) \<and>
   (mset raw' = mset raw \<longrightarrow>
      map movement_id (StockMovements raw') = map movement_id (StockMovements raw)) \<and>
   correct_costs_and_generate_stocks ms st res = process_in_order ms (ms, st, res) \<and>
   (correct_costs_and_generate_stocks (StockMovements raw) st res = Inr (ms', st', res') \<longrightarrow>
      map sort_by_key ms' = map sort_by_key (StockMovements raw))"
proof -
  have 2: "map movement_id (StockMovements raw') = map movement_id (StockMovements raw)"
    if "mset raw' = mset raw"
  proof -
    have "mset (map effective_key raw') = mset (map effective_key raw)"
      by (simp add: that)
    then have "sort (map effective_key raw') = sort (map effective_key raw)"
      by (intro properties_for_sort) simp_all
    then have "map sort_by_key (StockMovements raw') = map sort_by_key (StockMovements raw)"
      by (simp add: keys_StockMovements)
    then have "map snd (map sort_by_key (StockMovements raw'))
        = map snd (map sort_by_key (StockMovements raw))"
      by simp
    then show ?thesis by (simp add: comp_def sort_by_key_def)
  qed
  have 3: "correct_costs_and_generate_stocks ms st res = process_in_order ms (ms, st, res)"
    unfolding correct_costs_and_generate_stocks_def process_in_order_def
    by (rule pass_loop_fold)
  have 4: "map sort_by_key ms' = map sort_by_key (StockMovements raw)"
    if "correct_costs_and_generate_stocks (StockMovements raw) st res = Inr (ms', st', res')"
  proof -
    from that have "pass_loop None (StockMovements raw) (StockMovements raw, st, res)
        = Inr (ms', st', res')"
      by (simp add: correct_costs_and_generate_stocks_def)
    then show ?thesis by (rule keys_fixed [OF fixed_pass_loop])
  qed
  from keys_StockMovements 2 3 4 show ?thesis by blast
qed

theorem processing_order_witness:
  "map movement_id (StockMovements scenario_rows) = [1, 2, 3, 4, 5, 6] \<and>
   mset (rev scenario_rows) = mset scenario_rows \<and>
   map movement_id (StockMovements (rev scenario_rows)) = [1, 2, 3, 4, 5, 6] \<and>
   (\<exists>ms' st' res'.
      correct_costs_and_generate_stocks (StockMovements scenario_rows) scenario_stock new_empty
        = Inr (ms', st', res') \<and>
      process_in_order (StockMovements scenario_rows)
        (StockMovements scenario_rows, scenario_stock, new_empty) = Inr (ms', st', res') \<and>
      map movement_id ms' = [1, 2, 3, 4, 5, 6])"
proof -
  let ?T = "StockMovements scenario_rows"
  have v: "map movement_id ?T = [1, 2, 3, 4, 5, 6]" by code_simp
  have p: "mset (rev scenario_rows) = mset scenario_rows" by simp
  have "succeeds (correct_costs_and_generate_stocks ?T scenario_stock new_empty)" by code_simp
  then obtain ms' st' res' where
    r: "correct_costs_and_generate_stocks ?T scenario_stock new_empty = Inr (ms', st', res')"
    by (auto dest: succeedsD)
  note t = processing_order [where raw = scenario_rows and raw' = "rev scenario_rows"
      and ms = ?T and st = scenario_stock and res = new_empty
      and ms' = ms' and st' = st' and res' = res']
  have a: "map movement_id (StockMovements (rev scenario_rows)) = map movement_id ?T"
    by (rule t [THEN conjunct2, THEN conjunct1, THEN mp, OF p])
  have f: "process_in_order ?T (?T, scenario_stock, new_empty) = Inr (ms', st', res')"
    using t [THEN conjunct2, THEN conjunct2, THEN conjunct1] r by simp
  have "map sort_by_key ms' = map sort_by_key ?T"
    by (rule t [THEN conjunct2, THEN conjunct2, THEN conjunct2, THEN mp, OF r])
  then have "map snd (map sort_by_key ms') = map snd (map sort_by_key ?T)" by simp
  then have b: "map movement_id ms' = map movement_id ?T" by (simp add: comp_def sort_by_key_def)
  from v p a b r f show ?thesis
    by (intro conjI exI [of _ ms'] exI [of _ st'] exI [of _ res']) simp_all
qed

section \<open>Monthly snapshots\<close>

lemma dates_snapshot:
  "map date (snapshot ld row st res) =
     map date res @ month_closes ld [correct_movement_date row]"
  by (cases ld) (simp_all add: snapshot_def month_changed_def insert_new_entry_def)

lemma month_closes_Cons:
  "month_closes ld (d # ds) = month_closes ld [d] @ month_closes (Some d) ds"
  by (cases ld) simp_all

lemma pass_loop_dates:
  "pass_loop ld rows (ms, st, res) = Inr (ms', st', res') \<Longrightarrow>
     map date res' = map date res @ month_closes ld (map correct_movement_date rows)"
proof (induction rows arbitrary: ld ms st res)
  case Nil
  then show ?case by simp
next
  case (Cons row rows)
  from Cons.prems obtain ms2 st2 where
    "pass_loop (Some (correct_movement_date row)) rows (ms2, st2, snapshot ld row st res)
       = Inr (ms', st', res')"
    by (auto simp: Let_def split: sum.splits)
  from Cons.IH [OF this] have "map date res' =
      (map date res @ month_closes ld [correct_movement_date row]) @
      month_closes (Some (correct_movement_date row)) (map correct_movement_date rows)"
    by (simp only: dates_snapshot)
  also have "\<dots> = map date res @ month_closes ld (map correct_movement_date (row # rows))"
    using month_closes_Cons [of ld "correct_movement_date row" "map correct_movement_date rows"]
    by simp
  finally show ?case .
qed

lemma pass_loop_extends:
  "pass_loop ld rows (ms, st, res) = Inr (ms', st', res') \<Longrightarrow> \<exists>tail. res' = res @ tail"
proof (induction rows arbitrary: ld ms st res)
  case Nil
  then show ?case by simp
next
  case (Cons row rows)
  from Cons.prems obtain ms2 st2 where
    "pass_loop (Some (correct_movement_date row)) rows (ms2, st2, snapshot ld row st res)
       = Inr (ms', st', res')"
    by (auto simp: Let_def split: sum.splits)
  from Cons.IH [OF this] obtain tail where t: "res' = snapshot ld row st res @ tail" by blast
  have "\<exists>e. snapshot ld row st res = res @ e"
    by (cases ld) (simp_all add: snapshot_def insert_new_entry_def)
  with t show ?case by auto
qed

text \<open>
  C6: after a pass that returns, the timeline has grown by exactly one entry for each movement
  whose effective date falls in another (month, year) than the date of the movement before
  it, dated at the end of the earlier month, and by none for the last, open month. At such a
  movement \<open>row\<close>, reached with the ledger \<open>sta\<close>, the entry holds the sums of the
  ledger \<open>sta\<close>, the ledger before \<open>row\<close> is applied. On movements of January, January
  and March the timeline receives one entry, for 31 January.
\<close>

theorem snapshots_at_month_changes:
  "(correct_costs_and_generate_stocks ms st res = Inr (ms', st', res') \<longrightarrow>
      map date res' = map date res @ month_closes None (map correct_movement_date ms)) \<and>
   (pass_loop (Some l) (row # rows) (msa, sta, resa) = Inr (msb, stb, resb) \<longrightarrow>
    (month l \<noteq> month (correct_movement_date row) \<or>
     year l \<noteq> year (correct_movement_date row)) \<longrightarrow>
      (\<exists>tail. resb = resa @
         [\<lparr>date = get_last_day_of_month (month l) (year l),
           corrected_cost = pd_sum (map (stock_total_cost \<circ> snd) sta),
           original_cost_total = pd_sum (map (original_total_cost \<circ> snd) sta)\<rparr>] @ tail))"
proof -
  have 1: "map date res' = map date res @ month_closes None (map correct_movement_date ms)"
    if "correct_costs_and_generate_stocks ms st res = Inr (ms', st', res')"
    using that unfolding correct_costs_and_generate_stocks_def by (rule pass_loop_dates)
  have 2: "\<exists>tail. resb = resa @
         [\<lparr>date = get_last_day_of_month (month l) (year l),
           corrected_cost = pd_sum (map (stock_total_cost \<circ> snd) sta),
           original_cost_total = pd_sum (map (original_total_cost \<circ> snd) sta)\<rparr>] @ tail"
    if r: "pass_loop (Some l) (row # rows) (msa, sta, resa) = Inr (msb, stb, resb)"
      and c: "month l \<noteq> month (correct_movement_date row) \<or>
              year l \<noteq> year (correct_movement_date row)"
  proof -
    from r obtain ms2 st2 where
      "pass_loop (Some (correct_movement_date row)) rows
         (ms2, st2, snapshot (Some l) row sta resa) = Inr (msb, stb, resb)"
      by (auto simp: Let_def split: sum.splits)
    from pass_loop_extends [OF this] obtain tail where
      "resb = snapshot (Some l) row sta resa @ tail" by blast
    then show ?thesis using c
      by (simp add: snapshot_def month_changed_def insert_new_entry_def)
  qed
  from 1 2 show ?thesis by blast
qed

theorem snapshots_at_month_changes_witness:
  "(\<exists>ms' st' res'.
      correct_costs_and_generate_stocks (StockMovements jan_jan_mar) scenario_stock new_empty
        = Inr (ms', st', res') \<and>
      map date res' = [midnight 2024 1 31]) \<and>
   (\<exists>msb stb resb tail.
      pass_loop (Some (midnight 2024 1 20))
        (StockMovements jan_jan_mar ! 2 # []) (StockMovements jan_jan_mar, scenario_stock, [])
        = Inr (msb, stb, resb) \<and>
      resb = [] @ [\<lparr>date = midnight 2024 1 31, corrected_cost = Fin 108,
                     original_cost_total = Fin 108\<rparr>] @ tail)"
proof -
  let ?T = "StockMovements jan_jan_mar"
  have "succeeds (correct_costs_and_generate_stocks ?T scenario_stock new_empty)" by code_simp
  then obtain ms' st' res' where
    r: "correct_costs_and_generate_stocks ?T scenario_stock new_empty = Inr (ms', st', res')"
    by (auto dest: succeedsD)
  have "succeeds (pass_loop (Some (midnight 2024 1 20)) (?T ! 2 # []) (?T, scenario_stock, []))"
    by code_simp
  then obtain msb stb resb where
    p: "pass_loop (Some (midnight 2024 1 20)) (?T ! 2 # []) (?T, scenario_stock, [])
          = Inr (msb, stb, resb)"
    by (auto dest: succeedsD)
  have c: "month (midnight 2024 1 20) \<noteq> month (correct_movement_date (?T ! 2)) \<or>
           year (midnight 2024 1 20) \<noteq> year (correct_movement_date (?T ! 2))"
    by code_simp
  have m: "map date new_empty @ month_closes None (map correct_movement_date ?T)
             = [midnight 2024 1 31]"
    by code_simp
  have e: "\<lparr>date = get_last_day_of_month (month (midnight 2024 1 20)) (year (midnight 2024 1 20)),
            corrected_cost = pd_sum (map (stock_total_cost \<circ> snd) scenario_stock),
            original_cost_total = pd_sum (map (original_total_cost \<circ> snd) scenario_stock)\<rparr>
           = \<lparr>date = midnight 2024 1 31, corrected_cost = Fin 108, original_cost_total = Fin 108\<rparr>"
    by code_simp
  note t = snapshots_at_month_changes [where ms = ?T and st = scenario_stock and res = new_empty
      and ms' = ms' and st' = st' and res' = res' and l = "midnight 2024 1 20"
      and row = "?T ! 2" and rows = "[]" and msa = ?T and sta = scenario_stock and resa = "[]"
      and msb = msb and stb = stb and resb = resb]
  have a: "map date res' = [midnight 2024 1 31]"
    using t [THEN conjunct1, THEN mp, OF r] m by simp
  from t [THEN conjunct2, THEN mp, OF p, THEN mp, OF c] obtain tail where
    b: "resb = [] @ [\<lparr>date = midnight 2024 1 31, corrected_cost = Fin 108,
                       original_cost_total = Fin 108\<rparr>] @ tail"
    unfolding e by blast
  have 1: "\<exists>ms' st' res'.
      correct_costs_and_generate_stocks ?T scenario_stock new_empty = Inr (ms', st', res') \<and>
      map date res' = [midnight 2024 1 31]"
    using r a by (intro exI [of _ ms'] exI [of _ st'] exI [of _ res']) simp
  have 2: "\<exists>msb stb resb tail.
      pass_loop (Some (midnight 2024 1 20)) (?T ! 2 # []) (?T, scenario_stock, [])
        = Inr (msb, stb, resb) \<and>
      resb = [] @ [\<lparr>date = midnight 2024 1 31, corrected_cost = Fin 108,
                     original_cost_total = Fin 108\<rparr>] @ tail"
    using p b by (intro exI [of _ msb] exI [of _ stb] exI [of _ resb] exI [of _ tail] conjI)
  from 1 2 show ?thesis by (rule conjI)
qed

section \<open>Frames the constructor builds\<close>

text \<open>
  The sign condition \<open>classified\<close> under which value conservation is stated holds of every
  frame the constructor builds, and of every frame reached from one by cost corrections.
\<close>

lemma signs_set_init_columns:
  "\<forall>m\<in>set (set_init_columns ms).
     (is_dismantling_input m \<longrightarrow> flt (total_cost m) (Fin 0)) \<and>
     (is_dismantling_output m \<longrightarrow> fgt (total_cost m) (Fin 0))"
  unfolding set_init_columns_def set_is_entry_def set_is_production_order_output_def
    set_is_production_order_input_def set_is_production_order_def
    set_is_dismantling_output_def set_is_dismantling_input_def set_is_dismantling_def
    set_correct_movement_date_def
  by simp

lemma signs_set_dismantling_id:
  assumes "\<forall>m\<in>set ms. (is_dismantling_input m \<longrightarrow> flt (total_cost m) (Fin 0)) \<and>
                       (is_dismantling_output m \<longrightarrow> fgt (total_cost m) (Fin 0))"
  shows "\<forall>m\<in>set (set_dismantling_id ms).
           (is_dismantling_input m \<longrightarrow> flt (total_cost m) (Fin 0)) \<and>
           (is_dismantling_output m \<longrightarrow> fgt (total_cost m) (Fin 0))"
proof
  fix m' assume "m' \<in> set (set_dismantling_id ms)"
  then have "no_group m' \<in> set (map no_group (set_dismantling_id ms))" by simp
  then have "no_group m' \<in> set (map no_group ms)" by (simp only: no_group_set_dismantling_id)
  then obtain m where m: "m \<in> set ms" and e: "no_group m' = no_group m" by auto
  have "is_dismantling_input m' = is_dismantling_input m"
    using arg_cong [OF e, of is_dismantling_input] by (simp add: no_group_def)
  moreover have "is_dismantling_output m' = is_dismantling_output m"
    using arg_cong [OF e, of is_dismantling_output] by (simp add: no_group_def)
  moreover have "total_cost m' = total_cost m"
    using arg_cong [OF e, of total_cost] by (simp add: no_group_def)
  ultimately show "(is_dismantling_input m' \<longrightarrow> flt (total_cost m') (Fin 0)) \<and>
           (is_dismantling_output m' \<longrightarrow> fgt (total_cost m') (Fin 0))"
    using assms m by simp
qed

lemma classified_StockMovements: "classified (StockMovements raw)"
proof -
  have "\<forall>m\<in>set (order_by_correct_movement_date (set_init_columns raw)).
     (is_dismantling_input m \<longrightarrow> flt (total_cost m) (Fin 0)) \<and>
     (is_dismantling_output m \<longrightarrow> fgt (total_cost m) (Fin 0))"
    using signs_set_init_columns [of raw] by (simp add: order_by_correct_movement_date_def)
  from signs_set_dismantling_id [OF this] show ?thesis
    by (simp add: StockMovements_def classified_def set_movement_cost_is_already_correct_def)
qed

lemma classified_fixed:
  assumes "map fixed_columns a = map fixed_columns b" and "classified b"
  shows "classified a"
  unfolding classified_def
proof
  fix m assume "m \<in> set a"
  then have "fixed_columns m \<in> set (map fixed_columns b)" using assms(1) by (metis imageI set_map)
  then obtain m' where m': "m' \<in> set b" and e: "fixed_columns m = fixed_columns m'" by auto
  from fixed_eq_fields(4,8,9) [OF e] assms(2) m'
  show "(is_dismantling_input m \<longrightarrow> flt (original_cost m) (Fin 0)) \<and>
        (is_dismantling_output m \<longrightarrow> fgt (original_cost m) (Fin 0))"
    by (simp add: classified_def)
qed

end
